theory Spec2Isabelle
  imports Complex_Main "HOL-Library.Monad_Syntax"
begin

section \<open>Data model (src/src/components/Paint/index.tsx)\<close>

text \<open>
  A JavaScript \<open>number\<close> that the program computes with (a position, a size, a numeric
  field of a shape) is modelled as a \<open>real\<close>: the finite values, with exact arithmetic.
  The background rotation, which the program only stores, exports and imports, is a
  \<open>jsnum\<close>: a finite value or one of \<open>Infinity\<close>, \<open>-Infinity\<close> and \<open>NaN\<close>.
  A JavaScript string is a \<open>string\<close>, one list element for each code unit.

  \<open>Position\<close> and \<open>Size\<close> are the two argument objects of the move and resize
  callbacks. Their field names are also field names of the shapes, so they are written
  qualified (\<open>Position.x\<close>, \<open>Size.width\<close>); the unqualified names are the shape's.
  \<open>Selection\<close> is the object \<open>{index, key}\<close> that \<open>Paint\<close> keeps for the selected
  shape, its fields \<open>sel_index\<close> and \<open>sel_key\<close>. The draw modes \<open>"RECT"\<close> and
  \<open>"ELLIPSE"\<close> are \<open>MODE_RECT\<close> and \<open>MODE_ELLIPSE\<close>, since \<open>RECT\<close> and \<open>ELLIPSE\<close>
  name the shapes.
\<close>

datatype jsnum = Finite real | PosInfinity | NegInfinity | NaN

datatype CanvasDrawMode = SELECT | MODE_RECT | MODE_ELLIPSE | TEXT_S | TEXT_L

datatype PenColor = ORANGE | GREEN | PURPLE

datatype Position = Position (x: real) (y: real)

datatype Size = Size (width: real) (height: real)

datatype Selection = Selection (sel_index: nat) (sel_key: string)

text \<open>
  \<open>PaintShape = PaintRect | PaintEllipse | PaintText\<close>: a union tagged by the field
  \<open>type\<close>. Each constructor is one of the three object types, its arguments the fields
  after \<open>type\<close> in the order of the type declaration. A selector shared by several
  constructors is a field that several of the object types have. The field \<open>text\<close> is
  the selector \<open>text'\<close>.
\<close>

datatype PaintShape =
    RECT (x: real) (y: real) (width: real) (height: real) (key: string)
         (strokeColor: string) (fillColor: string) (readonly: bool)
  | ELLIPSE (x: real) (y: real) (radiusX: real) (radiusY: real) (key: string)
         (strokeColor: string) (fillColor: string) (readonly: bool)
  | TEXT (x: real) (y: real) (width: real) (key: string) (color: string)
         (fontSize: real) (text': string) (readonly: bool)

text \<open>The field \<open>type\<close> of a shape.\<close>

fun shape_type :: "PaintShape \<Rightarrow> string" where
  "shape_type (RECT _ _ _ _ _ _ _ _) = ''RECT''"
| "shape_type (ELLIPSE _ _ _ _ _ _ _ _) = ''ELLIPSE''"
| "shape_type (TEXT _ _ _ _ _ _ _ _) = ''TEXT''"

subsection \<open>The type guards (src/unnamed/part_000)\<close>

definition isPaintRect :: "PaintShape \<Rightarrow> bool" where
  "isPaintRect shape = (shape_type shape = ''RECT'')"

definition isPaintEllipse :: "PaintShape \<Rightarrow> bool" where
  "isPaintEllipse shape = (shape_type shape = ''ELLIPSE'')"

definition isPaintText :: "PaintShape \<Rightarrow> bool" where
  "isPaintText shape = (shape_type shape = ''TEXT'')"

subsection \<open>Assignments to the fields of a shape\<close>

text \<open>
  \<open>shape.f = v\<close> for the fields the handlers assign. The handlers assign a field only
  to a shape that has it (all shapes have \<open>x\<close> and \<open>y\<close>; the others are assigned under
  a type guard), so the remaining equations are never reached; they leave the shape as it
  is.
\<close>

fun set_x :: "real \<Rightarrow> PaintShape \<Rightarrow> PaintShape" where
  "set_x v (RECT _ b w h k s f r) = RECT v b w h k s f r"
| "set_x v (ELLIPSE _ b rx ry k s f r) = ELLIPSE v b rx ry k s f r"
| "set_x v (TEXT _ b w k c fs t r) = TEXT v b w k c fs t r"

fun set_y :: "real \<Rightarrow> PaintShape \<Rightarrow> PaintShape" where
  "set_y v (RECT a _ w h k s f r) = RECT a v w h k s f r"
| "set_y v (ELLIPSE a _ rx ry k s f r) = ELLIPSE a v rx ry k s f r"
| "set_y v (TEXT a _ w k c fs t r) = TEXT a v w k c fs t r"

fun set_width :: "real \<Rightarrow> PaintShape \<Rightarrow> PaintShape" where
  "set_width v (RECT a b _ h k s f r) = RECT a b v h k s f r"
| "set_width v (TEXT a b _ k c fs t r) = TEXT a b v k c fs t r"
| "set_width v shape = shape"

fun set_height :: "real \<Rightarrow> PaintShape \<Rightarrow> PaintShape" where
  "set_height v (RECT a b w _ k s f r) = RECT a b w v k s f r"
| "set_height v shape = shape"

fun set_radiusX :: "real \<Rightarrow> PaintShape \<Rightarrow> PaintShape" where
  "set_radiusX v (ELLIPSE a b _ ry k s f r) = ELLIPSE a b v ry k s f r"
| "set_radiusX v shape = shape"

fun set_radiusY :: "real \<Rightarrow> PaintShape \<Rightarrow> PaintShape" where
  "set_radiusY v (ELLIPSE a b rx _ k s f r) = ELLIPSE a b rx v k s f r"
| "set_radiusY v shape = shape"

fun set_text :: "string \<Rightarrow> PaintShape \<Rightarrow> PaintShape" where
  "set_text v (TEXT a b w k c fs _ r) = TEXT a b w k c fs v r"
| "set_text v shape = shape"

section \<open>The host application (src/src/components/Main/index.tsx)\<close>

text \<open>
  The state of \<open>Main\<close>: its \<open>useState\<close> cells and the value of the text area
  (the text area is mounted whenever a handler runs, so the early returns on a missing
  element are not taken). A background image is modelled by its \<open>src\<close>. The function
  that a handler gives to \<open>setShapes\<close> is applied once, to the list of the current
  state.
\<close>

datatype Image = Image (src: string)

record main_state =
  readonly_flag :: bool
  drawMode :: CanvasDrawMode
  penColor :: PenColor
  shapes :: "PaintShape list"
  bgImg :: "Image option"
  bgImgRotation :: jsnum
  textArea :: string

text \<open>The state in which \<open>Main\<close> starts: the initial values of its \<open>useState\<close> cells.\<close>

definition initial_state :: main_state where
  "initial_state =
     \<lparr>readonly_flag = False, drawMode = SELECT, penColor = ORANGE, shapes = [],
      bgImg = None, bgImgRotation = Finite 0, textArea = []\<rparr>"

text \<open>
  An exception that a handler throws and does not catch. \<open>TypeError\<close> is the reading
  or writing of a property of \<open>undefined\<close> or \<open>null\<close>.
\<close>

datatype failure = TypeError

text \<open>
  \<open>handleCanvasDrawEnd(newShape?)\<close>: the draw mode goes back to \<open>SELECT\<close>; a shape,
  when there is one, is appended.
\<close>

definition handleCanvasDrawEnd :: "PaintShape option \<Rightarrow> main_state \<Rightarrow> main_state" where
  "handleCanvasDrawEnd newShape st =
     (let st1 = st\<lparr>drawMode := SELECT\<rparr>
      in case newShape of
           None \<Rightarrow> st1
         | Some s \<Rightarrow> st1\<lparr>shapes := shapes st1 @ [s]\<rparr>)"

text \<open>
  \<open>handleShapeMoveEnd(index, pos)\<close>. \<open>newShapes[index]\<close> is \<open>undefined\<close> when the
  index is not one of the array, and the assignment to its \<open>x\<close> throws.
\<close>

definition handleShapeMoveEnd :: "nat \<Rightarrow> Position \<Rightarrow> main_state \<Rightarrow> failure + main_state" where
  "handleShapeMoveEnd index pos st =
     (let newShapes = shapes st
      in if index < length newShapes
         then Inr (st\<lparr>shapes :=
                 newShapes[index := set_y (Position.y pos) (set_x (Position.x pos) (newShapes ! index))]\<rparr>)
         else Inl TypeError)"

text \<open>
  \<open>handleShapeResizeEnd(index, size)\<close>. The guard \<open>isPaintRect(undefined)\<close> reads
  \<open>undefined.type\<close> and throws.
\<close>

definition handleShapeResizeEnd :: "nat \<Rightarrow> Size \<Rightarrow> main_state \<Rightarrow> failure + main_state" where
  "handleShapeResizeEnd index sz st =
     (let newShapes = shapes st
      in if index < length newShapes
         then
           (let targetShape = newShapes ! index;
                targetShape' =
                  (if isPaintRect targetShape then
                     set_height (Size.height sz) (set_width (Size.width sz) targetShape)
                   else if isPaintEllipse targetShape then
                     set_radiusY (of_int \<lfloor>Size.height sz / 2\<rfloor>)
                       (set_radiusX (of_int \<lfloor>Size.width sz / 2\<rfloor>) targetShape)
                   else if isPaintText targetShape then
                     set_width (Size.width sz) targetShape
                   else targetShape)
            in Inr (st\<lparr>shapes := newShapes[index := targetShape']\<rparr>))
         else Inl TypeError)"

text \<open>
  \<open>t.substring(0, t.length - 1)\<close>: the end index \<open>-1\<close> of the empty string is taken
  as \<open>0\<close>, and an end index within the string keeps the code units before it.
\<close>

definition substring0 :: "string \<Rightarrow> int \<Rightarrow> string" where
  "substring0 t e = take (nat (max 0 e)) t"

text \<open>\<open>handleTextInput(index, char)\<close>.\<close>

definition handleTextInput :: "nat \<Rightarrow> string \<Rightarrow> main_state \<Rightarrow> failure + main_state" where
  "handleTextInput index char st =
     (let newShapes = shapes st
      in if index < length newShapes
         then
           (let target = newShapes ! index;
                target' =
                  (if isPaintText target then
                     (if char = ''Backspace''
                      then set_text (substring0 (text' target) (int (length (text' target)) - 1)) target
                      else set_text (text' target @ char) target)
                   else target)
            in Inr (st\<lparr>shapes := newShapes[index := target']\<rparr>))
         else Inl TypeError)"

subsection \<open>JavaScript values\<close>

text \<open>
  The values that \<open>JSON.stringify\<close> reads and \<open>JSON.parse\<close> returns. A string of a
  value is the list of its code units, \<open>units s\<close> for a string \<open>s\<close> of the state. An
  object is the list of its properties in their order.
\<close>

type_synonym js_string = "nat list"

definition units :: "string \<Rightarrow> js_string" where
  "units s = map of_char s"

datatype jsval =
    JUndefined
  | JNull
  | JBool bool
  | JNum jsnum
  | JStr js_string
  | JArr "jsval list"
  | JObj "(js_string \<times> jsval) list"

subsection \<open>The runtime's \<open>JSON.stringify\<close>\<close>

text \<open>
  \<open>JSON.stringify\<close> and \<open>JSON.parse\<close> are functions of the JavaScript runtime, not of
  this repository. They are modelled here from the language standard, for texts whose
  code units are below 256, as the strings of this model are.

  The text of a finite number. The runtime writes the shortest decimal that reads back as
  the same number; with exact reals that is the decimal expansion itself: the digits
  \<open>ds\<close> without leading and trailing zeros and the position \<open>n\<close> of the decimal point,
  found by scaling the number by ten until it is whole (\<open>scale\<close>, at most 1074 times:
  no finite double has more fraction digits). The four layouts are those of the standard:
  digits and zeros, digits with a point, \<open>0.\<close> with zeros and digits, and the exponent
  notation from \<open>1e21\<close> on and below \<open>1e-6\<close>.
\<close>

fun digits :: "nat \<Rightarrow> nat list" where
  "digits m = (if m < 10 then [m] else digits (m div 10) @ [m mod 10])"

declare digits.simps [simp del]

definition digit_chars :: "nat list \<Rightarrow> string" where
  "digit_chars ds = map (\<lambda>d. char_of (48 + d)) ds"

fun scale :: "nat \<Rightarrow> real \<Rightarrow> nat" where
  "scale n a = (if n = 0 \<or> a = of_int \<lfloor>a\<rfloor> then 0 else Suc (scale (n - 1) (10 * a)))"

declare scale.simps [simp del]

definition positive_text :: "real \<Rightarrow> string" where
  "positive_text a =
     (let j = scale 1074 a;
          ds0 = digits (nat \<lfloor>a * 10 ^ j\<rfloor>);
          t = length (takeWhile (\<lambda>d. d = 0) (rev ds0));
          ds = take (length ds0 - t) ds0;
          k = length ds;
          n = int k + int t - int j
      in if int k \<le> n \<and> n \<le> 21 then
           digit_chars (ds @ replicate (nat (n - int k)) 0)
         else if 0 < n \<and> n \<le> 21 then
           digit_chars (take (nat n) ds) @ ''.'' @ digit_chars (drop (nat n) ds)
         else if - 6 < n \<and> n \<le> 0 then
           ''0.'' @ digit_chars (replicate (nat (- n)) 0 @ ds)
         else
           (if k = 1 then digit_chars ds
            else digit_chars (take 1 ds) @ ''.'' @ digit_chars (drop 1 ds))
           @ ''e'' @ (if 0 \<le> n - 1 then ''+'' else ''-'') @ digit_chars (digits (nat \<bar>n - 1\<bar>)))"

definition number_text :: "real \<Rightarrow> string" where
  "number_text r =
     (if r = 0 then ''0''
      else if r < 0 then ''-'' @ positive_text (- r)
      else positive_text r)"

text \<open>
  The text of a string: the quotation mark, the backslash and the control characters are
  escaped, every other code unit is written as itself. A code unit from 256 on, which no
  string of a state has and no text of this model can hold, is written as its escape.
\<close>

definition hex_digit :: "nat \<Rightarrow> char" where
  "hex_digit d = (if d < 10 then char_of (48 + d) else char_of (87 + d))"

definition unicode_escape :: "nat \<Rightarrow> string" where
  "unicode_escape u =
     [CHR 0x5C, CHR ''u'', hex_digit (u div 4096 mod 16), hex_digit (u div 256 mod 16),
      hex_digit (u div 16 mod 16), hex_digit (u mod 16)]"

definition quote_unit :: "nat \<Rightarrow> string" where
  "quote_unit u =
     (if u = 8 then [CHR 0x5C, CHR ''b'']
      else if u = 9 then [CHR 0x5C, CHR ''t'']
      else if u = 10 then [CHR 0x5C, CHR ''n'']
      else if u = 12 then [CHR 0x5C, CHR ''f'']
      else if u = 13 then [CHR 0x5C, CHR ''r'']
      else if u = 34 then [CHR 0x5C, CHR 0x22]
      else if u = 92 then [CHR 0x5C, CHR 0x5C]
      else if u < 32 \<or> 256 \<le> u then unicode_escape u
      else [char_of u])"

definition quote_string :: "js_string \<Rightarrow> string" where
  "quote_string s = [CHR 0x22] @ concat (map quote_unit s) @ [CHR 0x22]"

fun join :: "string \<Rightarrow> string list \<Rightarrow> string" where
  "join sep [] = []"
| "join sep [t] = t"
| "join sep (t # u # ts) = t @ sep @ join sep (u # ts)"

text \<open>
  The text of a value, \<open>None\<close> where the standard gives \<open>undefined\<close>: for the value
  \<open>undefined\<close> itself. A number that is not finite is written as \<open>null\<close>, an element
  \<open>undefined\<close> of an array as \<open>null\<close>, and a property whose value is \<open>undefined\<close> is
  left out. No space is written.
\<close>

fun serialize :: "jsval \<Rightarrow> string option" where
  "serialize JUndefined = None"
| "serialize JNull = Some ''null''"
| "serialize (JBool b) = Some (if b then ''true'' else ''false'')"
| "serialize (JNum num) = Some (case num of Finite r \<Rightarrow> number_text r | _ \<Rightarrow> ''null'')"
| "serialize (JStr s) = Some (quote_string s)"
| "serialize (JArr vs) =
     Some (''['' @ join '','' (map (\<lambda>v. case serialize v of None \<Rightarrow> ''null'' | Some t \<Rightarrow> t) vs) @ '']'')"
| "serialize (JObj kvs) =
     Some (''{'' @ join '',''
             (concat (map (\<lambda>kv. case serialize (snd kv) of
                                   None \<Rightarrow> []
                                 | Some t \<Rightarrow> [quote_string (fst kv) @ '':'' @ t]) kvs)) @ ''}'')"

text \<open>
  \<open>JSON.stringify(v)\<close> as the program uses it: the result is assigned to the value of
  the text area, which turns \<open>undefined\<close> into the text \<open>undefined\<close>. The program
  passes an object, so that case is not reached.
\<close>

definition JSON_stringify :: "jsval \<Rightarrow> string" where
  "JSON_stringify v = (case serialize v of None \<Rightarrow> ''undefined'' | Some t \<Rightarrow> t)"

subsection \<open>The runtime's \<open>JSON.parse\<close>\<close>

text \<open>
  The JSON grammar: white space (space, tab, line feed, carriage return) around the
  tokens; the literals \<open>true\<close>, \<open>false\<close> and \<open>null\<close>; strings with the escapes of the
  grammar and no raw control character; numbers with an optional sign, an integer part
  without a superfluous leading zero, an optional fraction and an optional exponent;
  arrays and objects.
\<close>

definition is_ws :: "char \<Rightarrow> bool" where
  "is_ws c = (c = CHR 0x20 \<or> c = CHR 0x09 \<or> c = CHR 0x0A \<or> c = CHR 0x0D)"

definition skip_ws :: "string \<Rightarrow> string" where
  "skip_ws cs = dropWhile is_ws cs"

definition is_digit :: "char \<Rightarrow> bool" where
  "is_digit c = (48 \<le> (of_char c :: nat) \<and> (of_char c :: nat) \<le> 57)"

definition digit_value :: "char \<Rightarrow> nat" where
  "digit_value c = of_char c - 48"

definition digits_value :: "nat list \<Rightarrow> nat" where
  "digits_value ds = foldl (\<lambda>a d. 10 * a + d) 0 ds"

definition hex_value :: "char \<Rightarrow> nat option" where
  "hex_value c =
     (let n = (of_char c :: nat)
      in if 48 \<le> n \<and> n \<le> 57 then Some (n - 48)
         else if 97 \<le> n \<and> n \<le> 102 then Some (n - 87)
         else if 65 \<le> n \<and> n \<le> 70 then Some (n - 55)
         else None)"

definition unescape :: "char \<Rightarrow> nat option" where
  "unescape c =
     (if c = CHR 0x22 then Some 34
      else if c = CHR 0x5C then Some 92
      else if c = CHR ''/'' then Some 47
      else if c = CHR ''b'' then Some 8
      else if c = CHR ''f'' then Some 12
      else if c = CHR ''n'' then Some 10
      else if c = CHR ''r'' then Some 13
      else if c = CHR ''t'' then Some 9
      else None)"

text \<open>The characters of a string after its opening quotation mark, and what follows it.\<close>

fun parse_chars :: "string \<Rightarrow> (js_string \<times> string) option" where
  "parse_chars [] = None"
| "parse_chars (c # cs) =
     (if c = CHR 0x22 then Some ([], cs)
      else if c = CHR 0x5C then
        (case cs of
           [] \<Rightarrow> None
         | e # cs1 \<Rightarrow>
             if e = CHR ''u'' then
               (case cs1 of
                  h1 # h2 # h3 # h4 # cs2 \<Rightarrow>
                    do { a \<leftarrow> hex_value h1; b \<leftarrow> hex_value h2;
                         c \<leftarrow> hex_value h3; d \<leftarrow> hex_value h4;
                         (s, r) \<leftarrow> parse_chars cs2;
                         Some ((4096 * a + 256 * b + 16 * c + d) # s, r) }
                | _ \<Rightarrow> None)
             else
               do { u \<leftarrow> unescape e; (s, r) \<leftarrow> parse_chars cs1; Some (u # s, r) })
      else if (of_char c :: nat) < 32 then None
      else do { (s, r) \<leftarrow> parse_chars cs; Some (of_char c # s, r) })"

text \<open>
  The value of a number token with the integer digits \<open>ip\<close>, the fraction digits \<open>fp\<close>
  and the exponent \<open>e\<close>. The runtime rounds it to a double; the model keeps the exact
  value, except that a value from \<open>overflow_bound\<close> on, which rounds to no finite
  double, is an infinity as in the runtime.
\<close>

definition pow10 :: "int \<Rightarrow> real" where
  "pow10 e = (if 0 \<le> e then 10 ^ nat e else 1 / 10 ^ nat (- e))"

definition overflow_bound :: real where
  "overflow_bound = 2 ^ 1024 - 2 ^ 970"

definition number_value :: "bool \<Rightarrow> string \<Rightarrow> string \<Rightarrow> int \<Rightarrow> jsnum" where
  "number_value neg ip fp e =
     (let a = of_nat (digits_value (map digit_value (ip @ fp))) * pow10 (e - int (length fp))
      in if overflow_bound \<le> a then (if neg then NegInfinity else PosInfinity)
         else Finite (if neg then - a else a))"

definition parse_exponent :: "string \<Rightarrow> (int \<times> string) option" where
  "parse_exponent cs =
     (case cs of
        [] \<Rightarrow> Some (0, cs)
      | c # r \<Rightarrow>
          if c = CHR ''e'' \<or> c = CHR ''E'' then
            (let (neg, r1) =
                   (case r of
                      [] \<Rightarrow> (False, r)
                    | s # r' \<Rightarrow> if s = CHR ''-'' then (True, r')
                                else if s = CHR ''+'' then (False, r') else (False, r));
                 ds = takeWhile is_digit r1
             in if ds = [] then None
                else Some ((if neg then - 1 else 1) * int (digits_value (map digit_value ds)),
                           dropWhile is_digit r1))
          else Some (0, cs))"

definition parse_fraction :: "string \<Rightarrow> (string \<times> string) option" where
  "parse_fraction cs =
     (case cs of
        [] \<Rightarrow> Some ([], cs)
      | c # r \<Rightarrow>
          if c = CHR ''.'' then
            (let ds = takeWhile is_digit r
             in if ds = [] then None else Some (ds, dropWhile is_digit r))
          else Some ([], cs))"

definition parse_number :: "string \<Rightarrow> (jsnum \<times> string) option" where
  "parse_number cs =
     (let (neg, cs1) =
            (case cs of
               [] \<Rightarrow> (False, cs)
             | c # r \<Rightarrow> if c = CHR ''-'' then (True, r) else (False, cs));
          ip = takeWhile is_digit cs1
      in if ip = [] \<or> (1 < length ip \<and> hd ip = CHR ''0'') then None
         else do { (fp, cs2) \<leftarrow> parse_fraction (dropWhile is_digit cs1);
                   (e, cs3) \<leftarrow> parse_exponent cs2;
                   Some (number_value neg ip fp e, cs3) })"

definition parse_literal :: "string \<Rightarrow> jsval \<Rightarrow> string \<Rightarrow> (jsval \<times> string) option" where
  "parse_literal word v cs =
     (if take (length word) cs = word then Some (v, drop (length word) cs) else None)"

text \<open>
  A property written for a key that the object already has replaces the value and keeps the
  place. (The runtime puts keys that are array indices first; no read depends on it.)
\<close>

definition set_member ::
  "js_string \<Rightarrow> jsval \<Rightarrow> (js_string \<times> jsval) list \<Rightarrow> (js_string \<times> jsval) list" where
  "set_member k v kvs =
     (if k \<in> fst ` set kvs then map (\<lambda>kv. if fst kv = k then (k, v) else kv) kvs
      else kvs @ [(k, v)])"

text \<open>
  A value, the elements of an array after its first bracket, and the properties of an
  object after its first brace, each with what follows in the text. The first argument
  bounds the number of nested calls; each call reads at least one character, so the
  length of the text is enough.
\<close>

fun parse_value :: "nat \<Rightarrow> string \<Rightarrow> (jsval \<times> string) option"
  and parse_elements :: "nat \<Rightarrow> string \<Rightarrow> jsval list \<Rightarrow> (jsval \<times> string) option"
  and parse_members :: "nat \<Rightarrow> string \<Rightarrow> (js_string \<times> jsval) list \<Rightarrow> (jsval \<times> string) option"
where
  "parse_value 0 cs = None"
| "parse_value (Suc n) cs =
     (case skip_ws cs of
        [] \<Rightarrow> None
      | c # r \<Rightarrow>
          if c = CHR ''{'' then
            (case skip_ws r of
               [] \<Rightarrow> None
             | d # r1 \<Rightarrow> if d = CHR ''}'' then Some (JObj [], r1) else parse_members n r [])
          else if c = CHR ''['' then
            (case skip_ws r of
               [] \<Rightarrow> None
             | d # r1 \<Rightarrow> if d = CHR '']'' then Some (JArr [], r1) else parse_elements n r [])
          else if c = CHR 0x22 then
            (case parse_chars r of None \<Rightarrow> None | Some (s, r1) \<Rightarrow> Some (JStr s, r1))
          else if c = CHR ''t'' then parse_literal ''true'' (JBool True) (c # r)
          else if c = CHR ''f'' then parse_literal ''false'' (JBool False) (c # r)
          else if c = CHR ''n'' then parse_literal ''null'' JNull (c # r)
          else if c = CHR ''-'' \<or> is_digit c then
            (case parse_number (c # r) of None \<Rightarrow> None | Some (num, r1) \<Rightarrow> Some (JNum num, r1))
          else None)"
| "parse_elements 0 cs acc = None"
| "parse_elements (Suc n) cs acc =
     (case parse_value n cs of
        None \<Rightarrow> None
      | Some (v, r) \<Rightarrow>
          (case skip_ws r of
             [] \<Rightarrow> None
           | c # r1 \<Rightarrow>
               if c = CHR '','' then parse_elements n r1 (acc @ [v])
               else if c = CHR '']'' then Some (JArr (acc @ [v]), r1)
               else None))"
| "parse_members 0 cs acc = None"
| "parse_members (Suc n) cs acc =
     (case skip_ws cs of
        [] \<Rightarrow> None
      | q # r \<Rightarrow>
          if q = CHR 0x22 then
            (case parse_chars r of
               None \<Rightarrow> None
             | Some (k, r1) \<Rightarrow>
                 (case skip_ws r1 of
                    [] \<Rightarrow> None
                  | c # r2 \<Rightarrow>
                      if c = CHR '':'' then
                        (case parse_value n r2 of
                           None \<Rightarrow> None
                         | Some (v, r3) \<Rightarrow>
                             (case skip_ws r3 of
                                [] \<Rightarrow> None
                              | d # r4 \<Rightarrow>
                                  if d = CHR '','' then parse_members n r4 (set_member k v acc)
                                  else if d = CHR ''}'' then Some (JObj (set_member k v acc), r4)
                                  else None))
                      else None))
          else None)"

text \<open>\<open>JSON.parse(text)\<close>, \<open>None\<close> where it throws a \<open>SyntaxError\<close>.\<close>

definition JSON_parse :: "string \<Rightarrow> jsval option" where
  "JSON_parse text =
     (case parse_value (length text) text of
        None \<Rightarrow> None
      | Some (v, r) \<Rightarrow> if skip_ws r = [] then Some v else None)"

subsection \<open>What a text written by \<open>JSON.stringify\<close> is read back as\<close>

text \<open>
  The value that the text of \<open>v\<close> denotes: \<open>v\<close> without its properties of value
  \<open>undefined\<close>, with \<open>null\<close> for every element \<open>undefined\<close> of an array and for every
  number that is not finite.
\<close>

fun json_image :: "jsval \<Rightarrow> jsval" where
  "json_image (JNum num) = (case num of Finite r \<Rightarrow> JNum (Finite r) | _ \<Rightarrow> JNull)"
| "json_image (JArr vs) = JArr (map (\<lambda>v. if v = JUndefined then JNull else json_image v) vs)"
| "json_image (JObj kvs) =
     JObj (map (\<lambda>kv. (fst kv, json_image (snd kv))) (filter (\<lambda>kv. snd kv \<noteq> JUndefined) kvs))"
| "json_image v = v"

text \<open>
  The reals that stand for finite JavaScript numbers: those whose decimal expansion ends
  within 1074 fraction digits and that are below the bound from which a number text is
  read as an infinity. Every finite double is one of them.
\<close>

definition decimal :: "real \<Rightarrow> bool" where
  "decimal a = (a * 10 ^ scale 1074 a = of_int \<lfloor>a * 10 ^ scale 1074 a\<rfloor>)"

definition representable :: "real \<Rightarrow> bool" where
  "representable r = (\<bar>r\<bar> < overflow_bound \<and> decimal \<bar>r\<bar>)"

text \<open>
  The values within the model of the two runtime functions: finite numbers are
  representable, the code units of strings and keys are below 256, and the properties that
  are written have different keys.
\<close>

fun serialisable :: "jsval \<Rightarrow> bool" where
  "serialisable (JNum num) = (case num of Finite r \<Rightarrow> representable r | _ \<Rightarrow> True)"
| "serialisable (JStr s) = (\<forall>u\<in>set s. u < 256)"
| "serialisable (JArr vs) = (\<forall>v\<in>set vs. serialisable v)"
| "serialisable (JObj kvs) =
     (distinct (map fst (filter (\<lambda>kv. snd kv \<noteq> JUndefined) kvs))
      \<and> (\<forall>kv\<in>set kvs. (\<forall>u\<in>set (fst kv). u < 256) \<and> serialisable (snd kv)))"
| "serialisable v = True"

subsection \<open>Notions for the proofs about the two runtime functions\<close>

text \<open>
  What may follow a number in a text (\<open>stops\<close>: no digit) and a value inside an array
  or an object or at the end (\<open>terminated\<close>); the fraction and the exponent of a number
  as they are written; the text and the read-back value of an array element and the text
  of a property.
\<close>

definition stops :: "string \<Rightarrow> bool" where
  "stops rest = (case rest of [] \<Rightarrow> True | c # _ \<Rightarrow> \<not> is_digit c)"

definition terminated :: "string \<Rightarrow> bool" where
  "terminated rest = (case rest of [] \<Rightarrow> True | c # _ \<Rightarrow> c = CHR '','' \<or> c = CHR '']'' \<or> c = CHR ''}'')"

definition fraction_text :: "nat list \<Rightarrow> string" where
  "fraction_text F = (if F = [] then [] else CHR ''.'' # digit_chars F)"

definition exponent_text :: "int option \<Rightarrow> string" where
  "exponent_text e =
     (case e of
        None \<Rightarrow> []
      | Some ex \<Rightarrow> ''e'' @ (if 0 \<le> ex then ''+'' else ''-'') @ digit_chars (digits (nat \<bar>ex\<bar>)))"

definition elem_text :: "jsval \<Rightarrow> string" where
  "elem_text v = (case serialize v of None \<Rightarrow> ''null'' | Some t \<Rightarrow> t)"

definition elem_image :: "jsval \<Rightarrow> jsval" where
  "elem_image v = (if v = JUndefined then JNull else json_image v)"

definition member_text :: "js_string \<times> jsval \<Rightarrow> string" where
  "member_text kv = quote_string (fst kv) @ CHR '':'' # elem_text (snd kv)"

subsection \<open>JSON export and import (src/src/components/Main/index.tsx)\<close>

text \<open>
  The read \<open>v.k\<close> of one of the properties \<open>bgImgSrc\<close>, \<open>bgImgRotation\<close> and
  \<open>shapes\<close>: it throws on \<open>undefined\<close> and \<open>null\<close>, gives the property of an
  object that has it, and \<open>undefined\<close> in every other case.
\<close>

fun js_get :: "jsval \<Rightarrow> js_string \<Rightarrow> failure + jsval" where
  "js_get JUndefined k = Inl TypeError"
| "js_get JNull k = Inl TypeError"
| "js_get (JObj kvs) k = Inr (case map_of kvs k of None \<Rightarrow> JUndefined | Some v \<Rightarrow> v)"
| "js_get v k = Inr JUndefined"

text \<open>The condition \<open>if (v)\<close>.\<close>

fun js_truthy :: "jsval \<Rightarrow> bool" where
  "js_truthy JUndefined = False"
| "js_truthy JNull = False"
| "js_truthy (JBool b) = b"
| "js_truthy (JNum num) = (case num of Finite r \<Rightarrow> r \<noteq> 0 | PosInfinity \<Rightarrow> True | NegInfinity \<Rightarrow> True | NaN \<Rightarrow> False)"
| "js_truthy (JStr s) = (s \<noteq> [])"
| "js_truthy (JArr vs) = True"
| "js_truthy (JObj kvs) = True"

text \<open>
  A shape as the object it is: its properties in the order in which
  \<open>handleCanvasMouseDown\<close> writes them in the object literal. Assignments to existing
  properties and the copy \<open>{...target}\<close> keep that order.
\<close>

fun shape_to_js :: "PaintShape \<Rightarrow> jsval" where
  "shape_to_js (RECT a b w h k s f r) =
     JObj [(units ''type'', JStr (units ''RECT'')), (units ''x'', JNum (Finite a)),
           (units ''y'', JNum (Finite b)), (units ''width'', JNum (Finite w)),
           (units ''height'', JNum (Finite h)), (units ''key'', JStr (units k)),
           (units ''strokeColor'', JStr (units s)), (units ''fillColor'', JStr (units f)),
           (units ''readonly'', JBool r)]"
| "shape_to_js (ELLIPSE a b rx ry k s f r) =
     JObj [(units ''type'', JStr (units ''ELLIPSE'')), (units ''x'', JNum (Finite a)),
           (units ''y'', JNum (Finite b)), (units ''radiusX'', JNum (Finite rx)),
           (units ''radiusY'', JNum (Finite ry)), (units ''key'', JStr (units k)),
           (units ''strokeColor'', JStr (units s)), (units ''fillColor'', JStr (units f)),
           (units ''readonly'', JBool r)]"
| "shape_to_js (TEXT a b w k c fs t r) =
     JObj [(units ''type'', JStr (units ''TEXT'')), (units ''x'', JNum (Finite a)),
           (units ''y'', JNum (Finite b)), (units ''width'', JNum (Finite w)),
           (units ''text'', JStr (units t)), (units ''key'', JStr (units k)),
           (units ''fontSize'', JNum (Finite fs)), (units ''color'', JStr (units c)),
           (units ''readonly'', JBool r)]"

text \<open>
  The other direction. \<open>handleJSONImport\<close> gives the parsed value the type
  \<open>{bgImgSrc?: string; bgImgRotation: number; shapes: PaintShape[]}\<close> by annotation,
  with no check at run time, and stores its parts in the state. The state of this model
  holds a number and a list of \<open>PaintShape\<close>, so it can follow the program only when
  the parts are such values: a number, and an array whose elements are objects of shapes,
  property for property as \<open>shape_to_js\<close> gives them. With any other value the program
  goes on outside the model; \<open>Untyped\<close> below then holds the two values that the setters
  were given.
\<close>

fun as_number :: "jsval \<Rightarrow> jsnum option" where
  "as_number (JNum num) = Some num"
| "as_number v = None"

fun as_real :: "jsval \<Rightarrow> real option" where
  "as_real (JNum (Finite r)) = Some r"
| "as_real v = None"

fun as_string :: "jsval \<Rightarrow> string option" where
  "as_string (JStr us) = (if \<forall>u\<in>set us. u < 256 then Some (map char_of us) else None)"
| "as_string v = None"

fun as_boolean :: "jsval \<Rightarrow> bool option" where
  "as_boolean (JBool b) = Some b"
| "as_boolean v = None"

definition field :: "(js_string \<times> jsval) list \<Rightarrow> string \<Rightarrow> jsval" where
  "field kvs k = (case map_of kvs (units k) of None \<Rightarrow> JUndefined | Some v \<Rightarrow> v)"

definition shape_of_props :: "(js_string \<times> jsval) list \<Rightarrow> PaintShape option" where
  "shape_of_props kvs =
     (if field kvs ''type'' = JStr (units ''RECT'') then
        do { a \<leftarrow> as_real (field kvs ''x''); b \<leftarrow> as_real (field kvs ''y'');
             w \<leftarrow> as_real (field kvs ''width''); h \<leftarrow> as_real (field kvs ''height'');
             k \<leftarrow> as_string (field kvs ''key''); s \<leftarrow> as_string (field kvs ''strokeColor'');
             f \<leftarrow> as_string (field kvs ''fillColor''); r \<leftarrow> as_boolean (field kvs ''readonly'');
             Some (RECT a b w h k s f r) }
      else if field kvs ''type'' = JStr (units ''ELLIPSE'') then
        do { a \<leftarrow> as_real (field kvs ''x''); b \<leftarrow> as_real (field kvs ''y'');
             rx \<leftarrow> as_real (field kvs ''radiusX''); ry \<leftarrow> as_real (field kvs ''radiusY'');
             k \<leftarrow> as_string (field kvs ''key''); s \<leftarrow> as_string (field kvs ''strokeColor'');
             f \<leftarrow> as_string (field kvs ''fillColor''); r \<leftarrow> as_boolean (field kvs ''readonly'');
             Some (ELLIPSE a b rx ry k s f r) }
      else if field kvs ''type'' = JStr (units ''TEXT'') then
        do { a \<leftarrow> as_real (field kvs ''x''); b \<leftarrow> as_real (field kvs ''y'');
             w \<leftarrow> as_real (field kvs ''width''); k \<leftarrow> as_string (field kvs ''key'');
             c \<leftarrow> as_string (field kvs ''color''); fs \<leftarrow> as_real (field kvs ''fontSize'');
             t \<leftarrow> as_string (field kvs ''text''); r \<leftarrow> as_boolean (field kvs ''readonly'');
             Some (TEXT a b w k c fs t r) }
      else None)"

definition shape_of_js :: "jsval \<Rightarrow> PaintShape option" where
  "shape_of_js v =
     (case v of
        JObj kvs \<Rightarrow>
          (case shape_of_props kvs of
             None \<Rightarrow> None
           | Some shape \<Rightarrow> if shape_to_js shape = v then Some shape else None)
      | _ \<Rightarrow> None)"

definition shapes_of_js :: "jsval \<Rightarrow> PaintShape list option" where
  "shapes_of_js v = (case v of JArr vs \<Rightarrow> those (map shape_of_js vs) | _ \<Rightarrow> None)"

datatype 'a typed = Typed 'a | Untyped jsval jsval

text \<open>
  The object that \<open>handleJSONExport\<close> gives to \<open>JSON.stringify\<close>:
  \<open>{bgImgSrc: bgImg?.src, bgImgRotation, shapes}\<close>.
\<close>

definition export_value :: "main_state \<Rightarrow> jsval" where
  "export_value st =
     JObj [(units ''bgImgSrc'',
              (case bgImg st of None \<Rightarrow> JUndefined | Some img \<Rightarrow> JStr (units (src img)))),
           (units ''bgImgRotation'', JNum (bgImgRotation st)),
           (units ''shapes'', JArr (map shape_to_js (shapes st)))]"

text \<open>
  \<open>handleJSONExport()\<close>, with the \<open>JSON.stringify\<close> of the runtime as the parameter
  \<open>stringify\<close>.
\<close>

definition handleJSONExport :: "(jsval \<Rightarrow> string) \<Rightarrow> main_state \<Rightarrow> main_state" where
  "handleJSONExport stringify st = st\<lparr>textArea := stringify (export_value st)\<rparr>"

text \<open>
  What \<open>handleJSONImport\<close> does besides the state updates: the message of the
  \<open>alert\<close>, when there is one, and the value assigned to the \<open>src\<close> of a new image,
  when one is created. The listener on that image sets \<open>bgImg\<close> later, when the image
  has loaded.
\<close>

record import_effects =
  alert :: "string option"
  image_src :: "jsval option"

text \<open>The \<open>catch\<close> branch: no setter has run.\<close>

definition import_failed :: "main_state \<Rightarrow> (main_state \<times> import_effects) typed" where
  "import_failed st = Typed (st, \<lparr>alert = Some ''Falied to import JSON'', image_src = None\<rparr>)"

text \<open>
  \<open>handleJSONImport()\<close>, with the \<open>JSON.parse\<close> of the runtime as the parameter
  \<open>parse\<close>, \<open>None\<close> where it throws a \<open>SyntaxError\<close>. Every exception of the \<open>try\<close>
  block is caught.
\<close>

definition handleJSONImport ::
  "(string \<Rightarrow> jsval option) \<Rightarrow> main_state \<Rightarrow> (main_state \<times> import_effects) typed" where
  "handleJSONImport parse st =
     (case parse (textArea st) of
        None \<Rightarrow> import_failed st
      | Some data \<Rightarrow>
          (case js_get data (units ''bgImgSrc'') of
             Inl e \<Rightarrow> import_failed st
           | Inr bgImgSrc \<Rightarrow>
               (let img = (if js_truthy bgImgSrc then Some bgImgSrc else None)
                in case js_get data (units ''bgImgRotation'') of
                     Inl e \<Rightarrow> import_failed st
                   | Inr rotation \<Rightarrow>
                       (case js_get data (units ''shapes'') of
                          Inl e \<Rightarrow> import_failed st
                        | Inr shps \<Rightarrow>
                            (case (as_number rotation, shapes_of_js shps) of
                               (Some r, Some ss) \<Rightarrow>
                                 Typed (st\<lparr>bgImgRotation := r, shapes := ss\<rparr>,
                                        \<lparr>alert = None, image_src = img\<rparr>)
                             | _ \<Rightarrow> Untyped rotation shps)))))"

text \<open>
  A document whose numbers are finite: the background rotation and the numeric fields of
  every shape are representable.
\<close>

fun finite_shape :: "PaintShape \<Rightarrow> bool" where
  "finite_shape (RECT a b w h k s f r) =
     (representable a \<and> representable b \<and> representable w \<and> representable h)"
| "finite_shape (ELLIPSE a b rx ry k s f r) =
     (representable a \<and> representable b \<and> representable rx \<and> representable ry)"
| "finite_shape (TEXT a b w k c fs t r) =
     (representable a \<and> representable b \<and> representable w \<and> representable fs)"

definition finite_document :: "main_state \<Rightarrow> bool" where
  "finite_document st =
     ((case bgImgRotation st of Finite r \<Rightarrow> representable r | _ \<Rightarrow> False)
      \<and> (\<forall>shape\<in>set (shapes st). finite_shape shape))"

section \<open>The canvas component (src/src/components/Paint/index.tsx)\<close>

text \<open>
  \<open>getRGBFromPenColor(penColor, opacity = 1.0)\<close> (src/unnamed/part_000). The
  template literal inserts the decimal text of \<open>opacity\<close>; the two calls of the
  component pass \<open>1.0\<close> (by default) and \<open>0.3\<close>, whose texts are \<open>1\<close> and \<open>0.3\<close>.
  The model takes that text as the argument.
\<close>

definition getRGBFromPenColor :: "PenColor \<Rightarrow> string \<Rightarrow> string" where
  "getRGBFromPenColor c opacity =
     (case c of
        ORANGE \<Rightarrow> ''rgba(249,115,22,'' @ opacity @ '')''
      | GREEN \<Rightarrow> ''rgba(34,197,94,'' @ opacity @ '')''
      | PURPLE \<Rightarrow> ''rgba(168,85,247,'' @ opacity @ '')'')"

text \<open>The two \<open>useState\<close> cells of \<open>Paint\<close>.\<close>

record paint_state =
  selectedShape :: "Selection option"
  drawTarget :: "PaintShape option"

text \<open>
  \<open>handleCanvasMouseDown(e)\<close>. The arguments are the props \<open>drawMode\<close>,
  \<open>penColor\<close> and \<open>readonly\<close>, and what the handler reads from the event and the
  environment: the pointer position of the stage (\<open>None\<close> when there is none), whether
  the target is the stage or an image (\<open>clickedOnEmpty\<close>), and the string that
  \<open>uuidv4()\<close> returns.
\<close>

definition handleCanvasMouseDown ::
  "CanvasDrawMode \<Rightarrow> PenColor \<Rightarrow> bool \<Rightarrow> Position option \<Rightarrow> bool \<Rightarrow> string
     \<Rightarrow> paint_state \<Rightarrow> paint_state" where
  "handleCanvasMouseDown mode pen ro pos clickedOnEmpty uuid ps =
     (case pos of
        None \<Rightarrow> ps
      | Some p \<Rightarrow>
          (let ps1 = (if clickedOnEmpty then ps\<lparr>selectedShape := None\<rparr> else ps)
           in case mode of
                MODE_RECT \<Rightarrow>
                  ps1\<lparr>drawTarget := Some (RECT (Position.x p) (Position.y p) 0 0 uuid
                     (getRGBFromPenColor pen ''1'') (getRGBFromPenColor pen ''0.3'') ro)\<rparr>
              | MODE_ELLIPSE \<Rightarrow>
                  ps1\<lparr>drawTarget := Some (ELLIPSE (Position.x p) (Position.y p) 0 0 uuid
                     (getRGBFromPenColor pen ''1'') (getRGBFromPenColor pen ''0.3'') ro)\<rparr>
              | TEXT_S \<Rightarrow>
                  ps1\<lparr>drawTarget := Some (TEXT (Position.x p) (Position.y p) 0 uuid
                     (getRGBFromPenColor pen ''1'') 16 ''TEXT'' ro)\<rparr>
              | TEXT_L \<Rightarrow>
                  ps1\<lparr>drawTarget := Some (TEXT (Position.x p) (Position.y p) 0 uuid
                     (getRGBFromPenColor pen ''1'') 32 ''TEXT'' ro)\<rparr>
              | SELECT \<Rightarrow> ps1))"

text \<open>
  The function that \<open>handleCanvasMouseMove\<close> gives to \<open>setDrawTarget\<close>, on a draft
  that exists: a copy of the draft with its extent recomputed from the pointer position.
\<close>

definition resize_draft :: "Position \<Rightarrow> PaintShape \<Rightarrow> PaintShape" where
  "resize_draft pos target =
     (let newTarget = target
      in if isPaintRect newTarget then
           set_height (Position.y pos - y target) (set_width (Position.x pos - x target) newTarget)
         else if isPaintEllipse newTarget then
           set_radiusY \<bar>Position.y pos - y target\<bar>
             (set_radiusX \<bar>Position.x pos - x target\<bar> newTarget)
         else if isPaintText newTarget then
           set_width (Position.x pos - x target) newTarget
         else newTarget)"

definition handleCanvasMouseMove :: "Position option \<Rightarrow> paint_state \<Rightarrow> paint_state" where
  "handleCanvasMouseMove pos ps =
     (case pos of
        None \<Rightarrow> ps
      | Some p \<Rightarrow>
          ps\<lparr>drawTarget :=
               (case drawTarget ps of None \<Rightarrow> None | Some target \<Rightarrow> Some (resize_draft p target))\<rparr>)"

text \<open>
  \<open>handleCanvasMouseUp()\<close>: the draft is cleared, and \<open>onDrawEnd\<close> is called with
  the draft there was (\<open>None\<close> for \<open>undefined\<close>). The second component is the
  argument of that call.
\<close>

definition handleCanvasMouseUp :: "paint_state \<Rightarrow> paint_state \<times> PaintShape option" where
  "handleCanvasMouseUp ps = (ps\<lparr>drawTarget := None\<rparr>, drawTarget ps)"

text \<open>\<open>handleSelect(index, key)\<close> of \<open>Paint\<close>.\<close>

definition handleSelect :: "nat \<Rightarrow> string \<Rightarrow> paint_state \<Rightarrow> paint_state" where
  "handleSelect idx k ps = ps\<lparr>selectedShape := Some (Selection idx k)\<rparr>"

subsection \<open>\<open>ShapeList\<close> and \<open>Shape\<close>\<close>

text \<open>
  The \<open>onSelect\<close> prop that \<open>ShapeList\<close> gives to the \<open>Shape\<close> of index
  \<open>shapeIdx\<close>: \<open>None\<close> is \<open>undefined\<close>, and \<open>Some h\<close> the handler whose effect on
  the state of \<open>Paint\<close> is \<open>h\<close>. \<open>ShapeList\<close> maps over the array, so the index is
  one of the array.
\<close>

definition shape_onSelect :: "PaintShape list \<Rightarrow> nat \<Rightarrow> (paint_state \<Rightarrow> paint_state) option" where
  "shape_onSelect shps shapeIdx =
     (let shape = shps ! shapeIdx
      in if readonly shape then None else Some (handleSelect shapeIdx (key shape)))"

text \<open>
  A click on the node of that shape: \<open>onClick={onSelect}\<close>. With no handler the
  click does nothing.
\<close>

definition shape_click :: "PaintShape list \<Rightarrow> nat \<Rightarrow> paint_state \<Rightarrow> paint_state" where
  "shape_click shps shapeIdx ps =
     (case shape_onSelect shps shapeIdx of None \<Rightarrow> ps | Some h \<Rightarrow> h ps)"

text \<open>The \<open>selected\<close> prop of a shape: \<open>selectedShape?.key === shape.key\<close>.\<close>

definition shape_selected :: "paint_state \<Rightarrow> PaintShape \<Rightarrow> bool" where
  "shape_selected ps shape =
     (case selectedShape ps of None \<Rightarrow> False | Some sel \<Rightarrow> sel_key sel = key shape)"

text \<open>
  The effect of \<open>Shape\<close> that attaches the transformer: it returns early unless the
  transformer and the node are mounted and \<open>selected\<close> holds, and otherwise gives the
  node to the transformer.
\<close>

definition transformer_attached :: "bool \<Rightarrow> bool \<Rightarrow> paint_state \<Rightarrow> PaintShape \<Rightarrow> bool" where
  "transformer_attached tr_mounted node_mounted ps shape =
     (if \<not> tr_mounted \<or> \<not> node_mounted \<or> \<not> shape_selected ps shape then False else True)"

section \<open>The application: \<open>Main\<close> with its \<open>Paint\<close>\<close>

text \<open>
  \<open>Main\<close> renders \<open>Paint\<close> with the props \<open>drawMode\<close>, \<open>penColor\<close>,
  \<open>readonly\<close> and \<open>shapes\<close> of its state and with its handlers as callbacks. Each
  function below is an event whose handler holds the state it is applied to.
\<close>

record app_state =
  main :: main_state
  paint :: paint_state

definition canvas_mouse_down :: "Position option \<Rightarrow> bool \<Rightarrow> string \<Rightarrow> app_state \<Rightarrow> app_state" where
  "canvas_mouse_down pos clickedOnEmpty uuid app =
     app\<lparr>paint := handleCanvasMouseDown (drawMode (main app)) (penColor (main app))
                     (readonly_flag (main app)) pos clickedOnEmpty uuid (paint app)\<rparr>"

definition canvas_mouse_move :: "Position option \<Rightarrow> app_state \<Rightarrow> app_state" where
  "canvas_mouse_move pos app = app\<lparr>paint := handleCanvasMouseMove pos (paint app)\<rparr>"

definition canvas_mouse_up :: "app_state \<Rightarrow> app_state" where
  "canvas_mouse_up app =
     (case handleCanvasMouseUp (paint app) of
        (ps, newShape) \<Rightarrow> \<lparr>main = handleCanvasDrawEnd newShape (main app), paint = ps\<rparr>)"

definition canvas_shape_click :: "nat \<Rightarrow> app_state \<Rightarrow> app_state" where
  "canvas_shape_click shapeIdx app =
     app\<lparr>paint := shape_click (shapes (main app)) shapeIdx (paint app)\<rparr>"

subsection \<open>Renders and handler closures\<close>

text \<open>
  A handler of \<open>Paint\<close> is a closure made by a render: it holds the state of that
  render. \<open>handleCanvasMouseMove\<close> gives \<open>setDrawTarget\<close> a function, which is applied
  to the current draft whenever the update is processed; \<open>handleCanvasMouseUp\<close> passes
  the \<open>drawTarget\<close> of its closure to \<open>onDrawEnd\<close>. So the draft that a release
  commits is the draft of the last render, and the updates of pointer moves that no
  render has followed are not in it.

  \<open>live\<close> is the state with every update applied, \<open>rendered\<close> the state of \<open>Paint\<close>
  as of the last render, which the closures hold. The updates of a pointer-down and a
  pointer-up are rendered before the next event is handled; after a pointer move a
  render may or may not come before the next event, so a render is a step of its own.
\<close>

record canvas_run =
  live :: app_state
  rendered :: paint_state

definition render :: "canvas_run \<Rightarrow> canvas_run" where
  "render c = c\<lparr>rendered := paint (live c)\<rparr>"

definition pointer_down :: "Position option \<Rightarrow> bool \<Rightarrow> string \<Rightarrow> canvas_run \<Rightarrow> canvas_run" where
  "pointer_down pos clickedOnEmpty uuid c =
     render (c\<lparr>live := canvas_mouse_down pos clickedOnEmpty uuid (live c)\<rparr>)"

definition pointer_move :: "Position option \<Rightarrow> canvas_run \<Rightarrow> canvas_run" where
  "pointer_move pos c = c\<lparr>live := canvas_mouse_move pos (live c)\<rparr>"

definition pointer_up :: "canvas_run \<Rightarrow> canvas_run" where
  "pointer_up c =
     render (c\<lparr>live :=
       \<lparr>main = handleCanvasDrawEnd (snd (handleCanvasMouseUp (rendered c))) (main (live c)),
        paint = fst (handleCanvasMouseUp (paint (live c)))\<rparr>\<rparr>)"

datatype gesture_step = Move "Position option" | Render

fun do_step :: "canvas_run \<Rightarrow> gesture_step \<Rightarrow> canvas_run" where
  "do_step c (Move pos) = pointer_move pos c"
| "do_step c Render = render c"

text \<open>
  A drawing gesture: the pointer goes down at \<open>p0\<close>, pointer moves follow (a move whose
  position the stage does not know is \<open>None\<close>), with a render after some of them, and
  the pointer goes up.
\<close>

definition pointer_gesture ::
  "Position \<Rightarrow> bool \<Rightarrow> string \<Rightarrow> gesture_step list \<Rightarrow> canvas_run \<Rightarrow> canvas_run" where
  "pointer_gesture p0 clickedOnEmpty uuid steps c =
     pointer_up (foldl do_step (pointer_down (Some p0) clickedOnEmpty uuid c) steps)"

section \<open>Sample data\<close>

text \<open>A document with one shape of each kind, the ellipse read-only, used in the examples.\<close>

definition sample_shapes :: "PaintShape list" where
  "sample_shapes =
     [RECT 10 20 30 40 ''k1'' ''rgba(249,115,22,1)'' ''rgba(249,115,22,0.3)'' False,
      ELLIPSE 50 60 7 8 ''k2'' ''rgba(34,197,94,1)'' ''rgba(34,197,94,0.3)'' True,
      TEXT 1 2 100 ''k3'' ''rgba(168,85,247,1)'' 16 ''AB'' False]"

definition sample_state :: main_state where
  "sample_state =
     \<lparr>readonly_flag = False, drawMode = SELECT, penColor = ORANGE, shapes = sample_shapes,
      bgImg = Some (Image ''data:image/png;base64,AAAA''), bgImgRotation = Finite 90, textArea = []\<rparr>"

definition sample_paint :: paint_state where
  "sample_paint = \<lparr>selectedShape = Some (Selection 0 ''k1''), drawTarget = None\<rparr>"

definition sample_app :: app_state where
  "sample_app = \<lparr>main = sample_state, paint = sample_paint\<rparr>"

text \<open>The application drawing a rectangle or an ellipse, just rendered.\<close>

definition sample_canvas :: "CanvasDrawMode \<Rightarrow> canvas_run" where
  "sample_canvas mode =
     \<lparr>live = sample_app\<lparr>main := sample_state\<lparr>drawMode := mode\<rparr>\<rparr>, rendered = sample_paint\<rparr>"

text \<open>
  A state whose background rotation is \<open>Infinity\<close>, and the text
  \<open>{"bgImgRotation":1e400,"shapes":[]}\<close>, whose import gives it.
\<close>

definition infinite_state :: main_state where
  "infinite_state = initial_state\<lparr>bgImgRotation := PosInfinity\<rparr>"

definition overflow_text :: string where
  "overflow_text =
     ''{'' @ [CHR 0x22] @ ''bgImgRotation'' @ [CHR 0x22] @ '':1e400,''
       @ [CHR 0x22] @ ''shapes'' @ [CHR 0x22] @ '':[]}''"

section \<open>Properties of the host's handlers\<close>

lemma isPaint_simps [simp]:
  "isPaintRect (RECT a b w h k s f r)"
  "\<not> isPaintRect (ELLIPSE a b rx ry k s f r)"
  "\<not> isPaintRect (TEXT a b w k c fs t r)"
  "\<not> isPaintEllipse (RECT a b w h k s f r)"
  "isPaintEllipse (ELLIPSE a b rx ry k s f r)"
  "\<not> isPaintEllipse (TEXT a b w k c fs t r)"
  "\<not> isPaintText (RECT a b w h k s f r)"
  "\<not> isPaintText (ELLIPSE a b rx ry k s f r)"
  "isPaintText (TEXT a b w k c fs t r)"
  by (simp_all add: isPaintRect_def isPaintEllipse_def isPaintText_def)

lemma substring0_butlast: "substring0 t (int (length t) - 1) = butlast t"
proof -
  have "nat (max 0 (int (length t) - 1)) = length t - 1" by simp
  then show ?thesis by (simp add: substring0_def butlast_conv_take)
qed

lemma list_update_same: "xs ! i = v \<Longrightarrow> xs[i := v] = xs"
  by (metis list_update_id)

lemma sample_length: "length (shapes sample_state) = 3"
  by (simp add: sample_state_def sample_shapes_def)

lemma sample_nth:
  "shapes sample_state ! 0 = RECT 10 20 30 40 ''k1'' ''rgba(249,115,22,1)'' ''rgba(249,115,22,0.3)'' False"
  "shapes sample_state ! 1 = ELLIPSE 50 60 7 8 ''k2'' ''rgba(34,197,94,1)'' ''rgba(34,197,94,0.3)'' True"
  "shapes sample_state ! 2 = TEXT 1 2 100 ''k3'' ''rgba(168,85,247,1)'' 16 ''AB'' False"
  by (simp_all add: sample_state_def sample_shapes_def)

lemma sample_in_range:
  "(0::nat) < length (shapes sample_state)"
  "(1::nat) < length (shapes sample_state)"
  "(2::nat) < length (shapes sample_state)"
  by (simp_all add: sample_length)

lemma sample_fields:
  "penColor sample_state = ORANGE"
  "readonly_flag sample_state = False"
  "shapes sample_state = sample_shapes"
  by (simp_all add: sample_state_def)

text \<open>
  C5. A resize-end event with the observed size \<open>(W, H)\<close> at an index of the list: an
  ellipse there gets \<open>radiusX = floor (W / 2)\<close> and \<open>radiusY = floor (H / 2)\<close>, a
  rectangle gets \<open>width = W\<close> and \<open>height = H\<close>, and a text gets \<open>width = W\<close> and
  nothing else. All other fields, all other shapes and the rest of the state stay.
\<close>

theorem resize_end_stores_size:
  assumes "index < length (shapes st)"
  shows "(shapes st ! index = ELLIPSE a b rx ry k s f r \<longrightarrow>
            handleShapeResizeEnd index (Size W H) st =
              Inr (st\<lparr>shapes := (shapes st)[index :=
                     ELLIPSE a b (of_int \<lfloor>W / 2\<rfloor>) (of_int \<lfloor>H / 2\<rfloor>) k s f r]\<rparr>))
       \<and> (shapes st ! index = RECT a' b' w' h' k' s' f' r' \<longrightarrow>
            handleShapeResizeEnd index (Size W H) st =
              Inr (st\<lparr>shapes := (shapes st)[index := RECT a' b' W H k' s' f' r']\<rparr>))
       \<and> (shapes st ! index = TEXT a'' b'' w'' k'' c fs t r'' \<longrightarrow>
            handleShapeResizeEnd index (Size W H) st =
              Inr (st\<lparr>shapes := (shapes st)[index := TEXT a'' b'' W k'' c fs t r'']\<rparr>))"
  using assms by (simp add: handleShapeResizeEnd_def)

theorem resize_end_stores_size_witness:
  "(1::nat) < length (shapes sample_state)
   \<and> handleShapeResizeEnd 1 (Size 7 (-5)) sample_state =
       Inr (sample_state\<lparr>shapes := (shapes sample_state)[1 :=
              ELLIPSE 50 60 3 (-3) ''k2'' ''rgba(34,197,94,1)'' ''rgba(34,197,94,0.3)'' True]\<rparr>)
   \<and> handleShapeResizeEnd 0 (Size 7 (-5)) sample_state =
       Inr (sample_state\<lparr>shapes := (shapes sample_state)[0 :=
              RECT 10 20 7 (-5) ''k1'' ''rgba(249,115,22,1)'' ''rgba(249,115,22,0.3)'' False]\<rparr>)
   \<and> handleShapeResizeEnd 2 (Size 7 (-5)) sample_state =
       Inr (sample_state\<lparr>shapes := (shapes sample_state)[2 :=
              TEXT 1 2 7 ''k3'' ''rgba(168,85,247,1)'' 16 ''AB'' False]\<rparr>)"
proof -
  note r = resize_end_stores_size [where W = 7 and H = "- 5"]
  have f: "of_int \<lfloor>(7::real) / 2\<rfloor> = (3::real)" "of_int \<lfloor>(- 5::real) / 2\<rfloor> = (- 3::real)"
    by simp_all
  from r [OF sample_in_range(2), THEN conjunct1, THEN mp, OF sample_nth(2)]
       r [OF sample_in_range(1), THEN conjunct2, THEN conjunct1, THEN mp, OF sample_nth(1)]
       r [OF sample_in_range(3), THEN conjunct2, THEN conjunct2, THEN mp, OF sample_nth(3)]
  show ?thesis
    by (simp only: f sample_in_range simp_thms)
qed

text \<open>
  C6. A text-input event \<open>(index, char)\<close> at a text shape with the text \<open>t\<close>: for
  \<open>char = "Backspace"\<close> the text becomes \<open>t\<close> without its last element, for any other
  \<open>char\<close> it becomes \<open>t\<close> followed by \<open>char\<close>. Nothing else changes.
\<close>

theorem text_input_edits_text:
  assumes "index < length (shapes st)"
      and "shapes st ! index = TEXT a b w k c fs t r"
  shows "handleTextInput index char st =
           Inr (st\<lparr>shapes := (shapes st)[index :=
                  TEXT a b w k c fs (if char = ''Backspace'' then butlast t else t @ char) r]\<rparr>)"
  using assms by (simp add: handleTextInput_def substring0_butlast)

theorem text_input_edits_text_witness:
  "(2::nat) < length (shapes sample_state)
   \<and> shapes sample_state ! 2 = TEXT 1 2 100 ''k3'' ''rgba(168,85,247,1)'' 16 ''AB'' False
   \<and> handleTextInput 2 ''Backspace'' sample_state =
       Inr (sample_state\<lparr>shapes := (shapes sample_state)[2 :=
              TEXT 1 2 100 ''k3'' ''rgba(168,85,247,1)'' 16 ''A'' False]\<rparr>)
   \<and> handleTextInput 2 ''C'' sample_state =
       Inr (sample_state\<lparr>shapes := (shapes sample_state)[2 :=
              TEXT 1 2 100 ''k3'' ''rgba(168,85,247,1)'' 16 ''ABC'' False]\<rparr>)"
proof -
  note t = text_input_edits_text [OF sample_in_range(3) sample_nth(3)]
  have "handleTextInput 2 ''Backspace'' sample_state =
          Inr (sample_state\<lparr>shapes := (shapes sample_state)[2 :=
                 TEXT 1 2 100 ''k3'' ''rgba(168,85,247,1)'' 16 ''A'' False]\<rparr>)"
    using t [of "''Backspace''"] by simp
  moreover have "handleTextInput 2 ''C'' sample_state =
          Inr (sample_state\<lparr>shapes := (shapes sample_state)[2 :=
                 TEXT 1 2 100 ''k3'' ''rgba(168,85,247,1)'' 16 ''ABC'' False]\<rparr>)"
    using t [of "''C''"] by simp
  ultimately show ?thesis
    using sample_in_range(3) sample_nth(3) by simp
qed

text \<open>
  C10. A text-input event at a rectangle or an ellipse changes nothing and does not fail,
  and \<open>"Backspace"\<close> at a text shape whose text is empty leaves the text empty and does
  not fail.
\<close>

theorem text_input_noop:
  assumes "index < length (shapes st)"
  shows "(isPaintRect (shapes st ! index) \<or> isPaintEllipse (shapes st ! index) \<longrightarrow>
            handleTextInput index char st = Inr st)
       \<and> (shapes st ! index = TEXT a b w k c fs [] r \<longrightarrow>
            handleTextInput index ''Backspace'' st = Inr st)"
  using assms
  by (cases "shapes st ! index")
     (auto simp add: handleTextInput_def substring0_def list_update_same)

theorem text_input_noop_witness:
  "(0::nat) < length (shapes sample_state)
   \<and> isPaintRect (shapes sample_state ! 0)
   \<and> isPaintEllipse (shapes sample_state ! 1)
   \<and> handleTextInput 0 ''C'' sample_state = Inr sample_state
   \<and> handleTextInput 1 ''Backspace'' sample_state = Inr sample_state
   \<and> handleTextInput 0 ''Backspace''
        (sample_state\<lparr>shapes := [TEXT 1 2 100 ''k3'' ''rgba(168,85,247,1)'' 16 [] False]\<rparr>)
       = Inr (sample_state\<lparr>shapes := [TEXT 1 2 100 ''k3'' ''rgba(168,85,247,1)'' 16 [] False]\<rparr>)"
proof -
  let ?e = "sample_state\<lparr>shapes := [TEXT 1 2 100 ''k3'' ''rgba(168,85,247,1)'' 16 [] False]\<rparr>"
  have r0: "isPaintRect (shapes sample_state ! 0)"
    and e1: "isPaintEllipse (shapes sample_state ! 1)"
    using sample_nth by simp_all
  have he: "(0::nat) < length (shapes ?e)"
    and te: "shapes ?e ! 0 = TEXT 1 2 100 ''k3'' ''rgba(168,85,247,1)'' 16 [] False"
    by simp_all
  from text_input_noop [OF sample_in_range(1), THEN conjunct1, THEN mp, OF disjI1, OF r0]
       text_input_noop [OF sample_in_range(2), THEN conjunct1, THEN mp, OF disjI2, OF e1]
       text_input_noop [OF he, THEN conjunct2, THEN mp, OF te]
  show ?thesis
    using sample_in_range(1) r0 e1 by simp
qed

text \<open>
  C8. A move-end event \<open>(index, pos)\<close> at an index of the list: the list keeps its
  length, every shape at another index stays, the shape at the index gets \<open>x = pos.x\<close>
  and \<open>y = pos.y\<close> and keeps every other field (putting its old \<open>x\<close> and \<open>y\<close> back
  gives the old shape), and the rest of the state stays.
\<close>

theorem move_end_frame:
  assumes "index < length (shapes st)"
  shows "case handleShapeMoveEnd index pos st of
           Inl e \<Rightarrow> False
         | Inr st' \<Rightarrow>
             length (shapes st') = length (shapes st)
           \<and> (\<forall>j < length (shapes st). j \<noteq> index \<longrightarrow> shapes st' ! j = shapes st ! j)
           \<and> x (shapes st' ! index) = Position.x pos
           \<and> y (shapes st' ! index) = Position.y pos
           \<and> set_y (y (shapes st ! index)) (set_x (x (shapes st ! index)) (shapes st' ! index))
               = shapes st ! index
           \<and> st'\<lparr>shapes := shapes st\<rparr> = st"
  using assms by (cases "shapes st ! index") (simp_all add: handleShapeMoveEnd_def)

theorem move_end_frame_witness:
  "(1::nat) < length (shapes sample_state)
   \<and> (case handleShapeMoveEnd 1 (Position 5 (-6)) sample_state of
         Inl e \<Rightarrow> False
       | Inr st' \<Rightarrow>
           length (shapes st') = 3
         \<and> shapes st' ! 0 = shapes sample_state ! 0
         \<and> shapes st' ! 2 = shapes sample_state ! 2
         \<and> x (shapes st' ! 1) = 5
         \<and> y (shapes st' ! 1) = - 6
         \<and> set_y 60 (set_x 50 (shapes st' ! 1)) = shapes sample_state ! 1
         \<and> st'\<lparr>shapes := shapes sample_state\<rparr> = sample_state)"
proof -
  have e: "x (shapes sample_state ! 1) = 50" "y (shapes sample_state ! 1) = 60"
    using sample_nth(2) by simp_all
  have j: "(0::nat) < length (shapes sample_state) \<and> (0::nat) \<noteq> 1"
          "(2::nat) < length (shapes sample_state) \<and> (2::nat) \<noteq> 1"
    by (simp_all add: sample_length)
  show ?thesis
    using sample_in_range(2) j e move_end_frame [OF sample_in_range(2), of "Position 5 (- 6)"]
    by (auto simp add: sample_length split: sum.splits)
qed


section \<open>Properties of the canvas component\<close>

lemma resize_draft_twice: "resize_draft p (resize_draft q d) = resize_draft p d"
  by (cases d) (simp_all add: resize_draft_def)

text \<open>While a draft exists, a sequence of pointer moves leaves what its last move gives.\<close>

lemma moves_then_last:
  "drawTarget ps = Some d \<Longrightarrow>
     foldl (\<lambda>q m. handleCanvasMouseMove m q) ps (ms @ [Some p])
       = ps\<lparr>drawTarget := Some (resize_draft p d)\<rparr>"
proof (induction ms arbitrary: ps d)
  case Nil
  then show ?case by (simp add: handleCanvasMouseMove_def)
next
  case (Cons m ms)
  show ?case
  proof (cases m)
    case None
    with Cons show ?thesis by (simp add: handleCanvasMouseMove_def)
  next
    case (Some q)
    let ?ps1 = "handleCanvasMouseMove (Some q) ps"
    have d1: "drawTarget ?ps1 = Some (resize_draft q d)"
      using Cons.prems by (simp add: handleCanvasMouseMove_def)
    have "foldl (\<lambda>q m. handleCanvasMouseMove m q) ?ps1 (ms @ [Some p])
            = ?ps1\<lparr>drawTarget := Some (resize_draft p (resize_draft q d))\<rparr>"
      by (rule Cons.IH [OF d1])
    then show ?thesis
      using Some Cons.prems by (simp add: resize_draft_twice handleCanvasMouseMove_def)
  qed
qed

text \<open>Pointer moves change the live draft only: not the render, not the host.\<close>

lemma foldl_moves:
  "foldl do_step c (map Move ms)
     = c\<lparr>live := (live c)\<lparr>paint := foldl (\<lambda>q m. handleCanvasMouseMove m q) (paint (live c)) ms\<rparr>\<rparr>"
  by (induction ms arbitrary: c) (simp_all add: pointer_move_def canvas_mouse_move_def)

text \<open>
  The release commits the draft of the last render. With a render after the move to
  \<open>p1\<close>, the shape appended is the draft sized by \<open>p1\<close>, whatever moves come after
  that render; when none comes, \<open>p1\<close> is the pointer position at the release.
\<close>

lemma release_commits_rendered_draft:
  assumes "drawTarget (handleCanvasMouseDown (drawMode (main (live c))) (penColor (main (live c)))
                     (readonly_flag (main (live c))) (Some p0) e uuid (paint (live c))) = Some d"
  shows "shapes (main (live (pointer_gesture p0 e uuid
                   (map Move ms @ [Move (Some p1), Render] @ map Move later) c)))
           = shapes (main (live c)) @ [resize_draft p1 d]"
proof -
  define c1 where "c1 = pointer_down (Some p0) e uuid c"
  define drawn where "drawn = (paint (live c1))\<lparr>drawTarget := Some (resize_draft p1 d)\<rparr>"
  define c2 where "c2 = render (c1\<lparr>live := (live c1)\<lparr>paint := drawn\<rparr>\<rparr>)"
  define c3 where "c3 = foldl do_step c2 (map Move later)"
  have d1: "drawTarget (paint (live c1)) = Some d"
    using assms by (simp add: c1_def pointer_down_def render_def canvas_mouse_down_def)
  have m1: "main (live c1) = main (live c)"
    by (simp add: c1_def pointer_down_def render_def canvas_mouse_down_def)
  have moved: "foldl (\<lambda>q m. handleCanvasMouseMove m q) (paint (live c1)) (ms @ [Some p1]) = drawn"
    unfolding drawn_def by (rule moves_then_last [OF d1])
  have "foldl do_step c1 (map Move (ms @ [Some p1])) = c1\<lparr>live := (live c1)\<lparr>paint := drawn\<rparr>\<rparr>"
    unfolding foldl_moves moved by (rule refl)
  then have "foldl do_step c1 (map Move (ms @ [Some p1]) @ [Render]) = c2"
    unfolding foldl_append c2_def by simp
  then have "foldl do_step c1 ((map Move (ms @ [Some p1]) @ [Render]) @ map Move later) = c3"
    unfolding foldl_append [of do_step c1 "map Move (ms @ [Some p1]) @ [Render]"] c3_def by simp
  then have run: "foldl do_step c1 (map Move ms @ [Move (Some p1), Render] @ map Move later) = c3"
    by simp
  have c3: "c3 = c2\<lparr>live := (live c2)\<lparr>paint := foldl (\<lambda>q m. handleCanvasMouseMove m q)
                                                   (paint (live c2)) later\<rparr>\<rparr>"
    unfolding c3_def by (rule foldl_moves)
  have r3: "rendered c3 = drawn" and m3: "main (live c3) = main (live c)"
    by (simp_all add: c3 c2_def render_def m1)
  have "drawTarget (rendered c3) = Some (resize_draft p1 d)"
    by (simp add: r3 drawn_def)
  then have "shapes (main (live (pointer_up c3))) = shapes (main (live c)) @ [resize_draft p1 d]"
    by (simp add: pointer_up_def render_def handleCanvasMouseUp_def handleCanvasDrawEnd_def m3)
  then show ?thesis
    unfolding pointer_gesture_def c1_def [symmetric] run .
qed

text \<open>
  What every gesture keeps, whatever renders come between its events: in the draw mode
  \<open>ELLIPSE\<close> one ellipse is committed, anchored at the pointer-down position, with
  radii that are not negative; in the draw mode \<open>RECT\<close> one rectangle, anchored at the
  pointer-down position.
\<close>

lemma ellipse_draft_kept:
  assumes "\<exists>rx ry. 0 \<le> rx \<and> 0 \<le> ry
             \<and> drawTarget (paint (live c)) = Some (ELLIPSE a b rx ry k s f r)"
      and "\<exists>rx ry. 0 \<le> rx \<and> 0 \<le> ry
             \<and> drawTarget (rendered c) = Some (ELLIPSE a b rx ry k s f r)"
  shows "(\<exists>rx ry. 0 \<le> rx \<and> 0 \<le> ry
            \<and> drawTarget (paint (live (foldl do_step c steps))) = Some (ELLIPSE a b rx ry k s f r))
         \<and> (\<exists>rx ry. 0 \<le> rx \<and> 0 \<le> ry
            \<and> drawTarget (rendered (foldl do_step c steps)) = Some (ELLIPSE a b rx ry k s f r))
         \<and> main (live (foldl do_step c steps)) = main (live c)"
  using assms
proof (induction steps arbitrary: c)
  case Nil
  then show ?case by simp
next
  case (Cons st steps)
  have 1: "\<exists>rx ry. 0 \<le> rx \<and> 0 \<le> ry
             \<and> drawTarget (paint (live (do_step c st))) = Some (ELLIPSE a b rx ry k s f r)"
    using Cons.prems
    by (cases st)
       (auto simp add: pointer_move_def canvas_mouse_move_def handleCanvasMouseMove_def
          resize_draft_def render_def split: option.splits)
  have 2: "\<exists>rx ry. 0 \<le> rx \<and> 0 \<le> ry
             \<and> drawTarget (rendered (do_step c st)) = Some (ELLIPSE a b rx ry k s f r)"
    using Cons.prems by (cases st) (auto simp add: pointer_move_def render_def)
  have 3: "main (live (do_step c st)) = main (live c)"
    by (cases st) (auto simp add: pointer_move_def canvas_mouse_move_def render_def)
  show ?case
    using Cons.IH [OF 1 2] 3 by simp
qed

lemma ellipse_gesture_radii_not_negative:
  assumes "drawMode (main (live c)) = MODE_ELLIPSE"
  shows "\<exists>rx ry k s f r.
           shapes (main (live (pointer_gesture p0 e uuid steps c)))
             = shapes (main (live c)) @ [ELLIPSE (Position.x p0) (Position.y p0) rx ry k s f r]
           \<and> 0 \<le> rx \<and> 0 \<le> ry"
proof -
  define c1 where "c1 = pointer_down (Some p0) e uuid c"
  let ?s = "getRGBFromPenColor (penColor (main (live c))) ''1''"
  let ?f = "getRGBFromPenColor (penColor (main (live c))) ''0.3''"
  let ?r = "readonly_flag (main (live c))"
  let ?d = "\<lambda>rx ry. Some (ELLIPSE (Position.x p0) (Position.y p0) rx ry uuid ?s ?f ?r)"
  have d: "drawTarget (paint (live c1)) = ?d 0 0" "drawTarget (rendered c1) = ?d 0 0"
          "main (live c1) = main (live c)"
    using assms
    by (simp_all add: c1_def pointer_down_def render_def canvas_mouse_down_def
          handleCanvasMouseDown_def)
  have 1: "\<exists>rx ry. 0 \<le> rx \<and> 0 \<le> ry \<and> drawTarget (paint (live c1)) = ?d rx ry"
    using d(1) by (intro exI [of _ 0]) simp
  have 2: "\<exists>rx ry. 0 \<le> rx \<and> 0 \<le> ry \<and> drawTarget (rendered c1) = ?d rx ry"
    using d(2) by (intro exI [of _ 0]) simp
  from ellipse_draft_kept [OF 1 2, of steps]
  have "(\<exists>rx ry. 0 \<le> rx \<and> 0 \<le> ry \<and> drawTarget (rendered (foldl do_step c1 steps)) = ?d rx ry)
         \<and> main (live (foldl do_step c1 steps)) = main (live c)"
    by (simp add: d(3))
  then show ?thesis
    unfolding pointer_gesture_def c1_def [symmetric]
    by (auto simp add: pointer_up_def render_def handleCanvasMouseUp_def handleCanvasDrawEnd_def)
qed

lemma rect_draft_kept:
  assumes "\<exists>w h. drawTarget (paint (live c)) = Some (RECT a b w h k s f r)"
      and "\<exists>w h. drawTarget (rendered c) = Some (RECT a b w h k s f r)"
  shows "(\<exists>w h. drawTarget (paint (live (foldl do_step c steps))) = Some (RECT a b w h k s f r))
         \<and> (\<exists>w h. drawTarget (rendered (foldl do_step c steps)) = Some (RECT a b w h k s f r))
         \<and> main (live (foldl do_step c steps)) = main (live c)"
  using assms
proof (induction steps arbitrary: c)
  case Nil
  then show ?case by simp
next
  case (Cons st steps)
  have 1: "\<exists>w h. drawTarget (paint (live (do_step c st))) = Some (RECT a b w h k s f r)"
    using Cons.prems
    by (cases st)
       (auto simp add: pointer_move_def canvas_mouse_move_def handleCanvasMouseMove_def
          resize_draft_def render_def split: option.splits)
  have 2: "\<exists>w h. drawTarget (rendered (do_step c st)) = Some (RECT a b w h k s f r)"
    using Cons.prems by (cases st) (auto simp add: pointer_move_def render_def)
  have 3: "main (live (do_step c st)) = main (live c)"
    by (cases st) (auto simp add: pointer_move_def canvas_mouse_move_def render_def)
  show ?case
    using Cons.IH [OF 1 2] 3 by simp
qed

lemma rect_gesture_anchor:
  assumes "drawMode (main (live c)) = MODE_RECT"
  shows "\<exists>w h k s f r.
           shapes (main (live (pointer_gesture p0 e uuid steps c)))
             = shapes (main (live c)) @ [RECT (Position.x p0) (Position.y p0) w h k s f r]"
proof -
  define c1 where "c1 = pointer_down (Some p0) e uuid c"
  let ?s = "getRGBFromPenColor (penColor (main (live c))) ''1''"
  let ?f = "getRGBFromPenColor (penColor (main (live c))) ''0.3''"
  let ?r = "readonly_flag (main (live c))"
  let ?d = "\<lambda>w h. Some (RECT (Position.x p0) (Position.y p0) w h uuid ?s ?f ?r)"
  have d: "drawTarget (paint (live c1)) = ?d 0 0" "drawTarget (rendered c1) = ?d 0 0"
          "main (live c1) = main (live c)"
    using assms
    by (simp_all add: c1_def pointer_down_def render_def canvas_mouse_down_def
          handleCanvasMouseDown_def)
  have 1: "\<exists>w h. drawTarget (paint (live c1)) = ?d w h"
    using d(1) by (intro exI [of _ 0]) simp
  have 2: "\<exists>w h. drawTarget (rendered c1) = ?d w h"
    using d(2) by (intro exI [of _ 0]) simp
  from rect_draft_kept [OF 1 2, of steps]
  have "(\<exists>w h. drawTarget (rendered (foldl do_step c1 steps)) = ?d w h)
         \<and> main (live (foldl do_step c1 steps)) = main (live c)"
    by (simp add: d(3))
  then show ?thesis
    unfolding pointer_gesture_def c1_def [symmetric]
    by (auto simp add: pointer_up_def render_def handleCanvasMouseUp_def handleCanvasDrawEnd_def)
qed

text \<open>
  C3. A gesture in the draw mode \<open>RECT\<close>: pointer down at \<open>(200, 300)\<close>, a move to
  \<open>(230, 330)\<close>, a render, a move to \<open>(194, 350)\<close>, and the release there before the
  next render. The handler of the release holds the draft of the last render, so the
  rectangle appended is 30 by 30, not \<open>194 - 200\<close> by \<open>350 - 300\<close>. With a render
  between the last move and the release it is \<open>-6\<close> by \<open>50\<close>.
\<close>

theorem rect_gesture_stale_release:
  "shapes (main (live (pointer_gesture (Position 200 300) True ''k4''
             [Move (Some (Position 230 330)), Render, Move (Some (Position 194 350))]
             (sample_canvas MODE_RECT))))
     = sample_shapes @
         [RECT 200 300 30 30 ''k4'' ''rgba(249,115,22,1)'' ''rgba(249,115,22,0.3)'' False]
   \<and> shapes (main (live (pointer_gesture (Position 200 300) True ''k4''
             [Move (Some (Position 230 330)), Render, Move (Some (Position 194 350)), Render]
             (sample_canvas MODE_RECT))))
     = sample_shapes @
         [RECT 200 300 (- 6) 50 ''k4'' ''rgba(249,115,22,1)'' ''rgba(249,115,22,0.3)'' False]"
  by (simp add: pointer_gesture_def pointer_down_def pointer_move_def pointer_up_def render_def
        canvas_mouse_down_def canvas_mouse_move_def handleCanvasMouseDown_def
        handleCanvasMouseMove_def handleCanvasMouseUp_def handleCanvasDrawEnd_def
        resize_draft_def getRGBFromPenColor_def sample_canvas_def sample_app_def
        sample_state_def sample_paint_def)

text \<open>
  C4. The same gesture in the draw mode \<open>ELLIPSE\<close>: the ellipse appended has the radii
  30 and 30 of the last render, not \<open>|194 - 200|\<close> and \<open>|350 - 300|\<close>. With a render
  between the last move and the release they are 6 and 50.
\<close>

theorem ellipse_gesture_stale_release:
  "shapes (main (live (pointer_gesture (Position 200 300) True ''k4''
             [Move (Some (Position 230 330)), Render, Move (Some (Position 194 350))]
             (sample_canvas MODE_ELLIPSE))))
     = sample_shapes @
         [ELLIPSE 200 300 30 30 ''k4'' ''rgba(249,115,22,1)'' ''rgba(249,115,22,0.3)'' False]
   \<and> shapes (main (live (pointer_gesture (Position 200 300) True ''k4''
             [Move (Some (Position 230 330)), Render, Move (Some (Position 194 350)), Render]
             (sample_canvas MODE_ELLIPSE))))
     = sample_shapes @
         [ELLIPSE 200 300 6 50 ''k4'' ''rgba(249,115,22,1)'' ''rgba(249,115,22,0.3)'' False]"
  by (simp add: pointer_gesture_def pointer_down_def pointer_move_def pointer_up_def render_def
        canvas_mouse_down_def canvas_mouse_move_def handleCanvasMouseDown_def
        handleCanvasMouseMove_def handleCanvasMouseUp_def handleCanvasDrawEnd_def
        resize_draft_def getRGBFromPenColor_def sample_canvas_def sample_app_def
        sample_state_def sample_paint_def)

text \<open>
  C9. A pointer-up event while no draft exists: \<open>onDrawEnd\<close> is called all the same,
  with no shape; the host leaves the shape list as it is and sets the draw mode to
  \<open>SELECT\<close>. Nothing else changes.
\<close>

theorem mouse_up_without_draft:
  assumes "drawTarget (paint app) = None"
  shows "handleCanvasMouseUp (paint app) = (paint app, None)
       \<and> canvas_mouse_up app = app\<lparr>main := (main app)\<lparr>drawMode := SELECT\<rparr>\<rparr>
       \<and> shapes (main (canvas_mouse_up app)) = shapes (main app)
       \<and> drawMode (main (canvas_mouse_up app)) = SELECT"
  using assms by (simp add: handleCanvasMouseUp_def canvas_mouse_up_def handleCanvasDrawEnd_def)

theorem mouse_up_without_draft_witness:
  "drawTarget (paint (sample_app\<lparr>main := sample_state\<lparr>drawMode := MODE_RECT\<rparr>\<rparr>)) = None
   \<and> shapes (main (canvas_mouse_up (sample_app\<lparr>main := sample_state\<lparr>drawMode := MODE_RECT\<rparr>\<rparr>)))
       = sample_shapes
   \<and> drawMode (main (canvas_mouse_up (sample_app\<lparr>main := sample_state\<lparr>drawMode := MODE_RECT\<rparr>\<rparr>)))
       = SELECT"
proof -
  let ?app = "sample_app\<lparr>main := sample_state\<lparr>drawMode := MODE_RECT\<rparr>\<rparr>"
  have h: "drawTarget (paint ?app) = None"
    by (simp add: sample_app_def sample_paint_def)
  from mouse_up_without_draft [OF h]
  show ?thesis using h by (simp add: sample_fields)
qed

text \<open>
  C7. A click on a committed shape whose \<open>readonly\<close> flag is set: the shape has no
  \<open>onSelect\<close> handler, so the selection callback does not run and the state of the
  canvas stays as it is; a shape that was not selected is not selected afterwards and
  the transformer is not attached to it. This also holds for the whole sequence of
  events of a click on the shape (pointer down on the shape, pointer up, click), in any
  draw mode.
\<close>

theorem readonly_click_no_effect:
  assumes "shapeIdx < length (shapes (main app))"
      and "readonly (shapes (main app) ! shapeIdx)"
  shows "shape_onSelect (shapes (main app)) shapeIdx = None
       \<and> canvas_shape_click shapeIdx app = app
       \<and> selectedShape (paint (canvas_shape_click shapeIdx
            (canvas_mouse_up (canvas_mouse_down pos False uuid app)))) = selectedShape (paint app)
       \<and> (\<not> shape_selected (paint app) (shapes (main app) ! shapeIdx) \<longrightarrow>
            \<not> shape_selected (paint (canvas_shape_click shapeIdx app)) (shapes (main app) ! shapeIdx)
          \<and> \<not> transformer_attached tr nd (paint (canvas_shape_click shapeIdx app))
                (shapes (main app) ! shapeIdx)
          \<and> \<not> transformer_attached tr nd
                (paint (canvas_shape_click shapeIdx
                   (canvas_mouse_up (canvas_mouse_down pos False uuid app))))
                (shapes (main app) ! shapeIdx))"
proof -
  have none: "shape_onSelect (shapes (main app)) shapeIdx = None"
    using assms by (simp add: shape_onSelect_def)
  have click: "canvas_shape_click shapeIdx app = app"
    using none by (simp add: canvas_shape_click_def shape_click_def)
  let ?up = "canvas_mouse_up (canvas_mouse_down pos False uuid app)"
  have sel_up: "selectedShape (paint ?up) = selectedShape (paint app)"
    by (cases pos; cases "drawMode (main app)")
       (simp_all add: canvas_mouse_up_def canvas_mouse_down_def handleCanvasMouseUp_def
          handleCanvasMouseDown_def)
  have nth_up: "shapes (main ?up) ! shapeIdx = shapes (main app) ! shapeIdx"
    using assms(1)
    by (cases pos; cases "drawMode (main app)")
       (simp_all add: canvas_mouse_up_def canvas_mouse_down_def handleCanvasMouseUp_def
          handleCanvasMouseDown_def handleCanvasDrawEnd_def nth_append Let_def
          split: option.splits)
  have "shape_onSelect (shapes (main ?up)) shapeIdx = None"
    using assms(2) nth_up by (simp add: shape_onSelect_def)
  then have "canvas_shape_click shapeIdx ?up = ?up"
    by (simp add: canvas_shape_click_def shape_click_def)
  with sel_up have seq: "selectedShape (paint (canvas_shape_click shapeIdx ?up))
                           = selectedShape (paint app)"
    by simp
  show ?thesis
    using none click seq by (simp add: transformer_attached_def shape_selected_def)
qed

theorem readonly_click_no_effect_witness:
  "(1::nat) < length (shapes (main sample_app))
   \<and> readonly (shapes (main sample_app) ! 1)
   \<and> \<not> shape_selected (paint sample_app) (shapes (main sample_app) ! 1)
   \<and> shape_onSelect (shapes (main sample_app)) 1 = None
   \<and> canvas_shape_click 1 sample_app = sample_app
   \<and> selectedShape (paint (canvas_shape_click 1
        (canvas_mouse_up (canvas_mouse_down (Some (Position 50 60)) False ''k4'' sample_app))))
       = Some (Selection 0 ''k1'')
   \<and> \<not> transformer_attached True True (paint (canvas_shape_click 1 sample_app))
         (shapes (main sample_app) ! 1)"
proof -
  have m: "shapes (main sample_app) = shapes sample_state"
    by (simp add: sample_app_def)
  have h1: "(1::nat) < length (shapes (main sample_app))"
    using sample_in_range(2) by (simp add: m)
  have h2: "readonly (shapes (main sample_app) ! 1)"
    using sample_nth(2) by (simp add: m)
  have h3: "\<not> shape_selected (paint sample_app) (shapes (main sample_app) ! 1)"
    using sample_nth(2) by (simp add: m shape_selected_def sample_app_def sample_paint_def)
  have s: "selectedShape (paint sample_app) = Some (Selection 0 ''k1'')"
    by (simp add: sample_app_def sample_paint_def)
  note r = readonly_click_no_effect [OF h1 h2, of "Some (Position 50 60)" "''k4''" True True]
  have "\<not> transformer_attached True True (paint (canvas_shape_click 1 sample_app))
          (shapes (main sample_app) ! 1)"
    using r h3 by blast
  moreover have "selectedShape (paint (canvas_shape_click 1
        (canvas_mouse_up (canvas_mouse_down (Some (Position 50 60)) False ''k4'' sample_app))))
       = Some (Selection 0 ''k1'')"
    using r s by metis
  ultimately show ?thesis
    using h1 h2 h3 r by blast
qed

section \<open>The text of a value is read back as its image\<close>

lemma digits_value_snoc: "digits_value (ds @ [d]) = 10 * digits_value ds + d"
  by (simp add: digits_value_def)

lemma digits_value_digits: "digits_value (digits m) = m"
proof (induction m rule: digits.induct)
  case (1 m)
  show ?case
  proof (cases "m < 10")
    case True
    then show ?thesis by (simp add: digits.simps [of m] digits_value_def)
  next
    case False
    with 1 show ?thesis by (simp add: digits.simps [of m] digits_value_snoc)
  qed
qed

lemma digits_lt10: "d \<in> set (digits m) \<Longrightarrow> d < 10"
proof (induction m rule: digits.induct)
  case (1 m)
  then show ?case
    by (cases "m < 10") (auto simp add: digits.simps [of m])
qed

lemma digits_nonempty: "digits m \<noteq> []"
  by (cases "m < 10") (simp_all add: digits.simps [of m])

lemma hd_digits: "0 < m \<Longrightarrow> hd (digits m) \<noteq> 0"
proof (induction m rule: digits.induct)
  case (1 m)
  show ?case
  proof (cases "m < 10")
    case True
    with 1 show ?thesis by (simp add: digits.simps [of m])
  next
    case False
    then have "0 < m div 10" by simp
    with 1 False show ?thesis
      by (simp add: digits.simps [of m] digits_nonempty)
  qed
qed

lemma digits_value_append:
  "digits_value (xs @ ys) = digits_value xs * 10 ^ length ys + digits_value ys"
proof (induction ys rule: rev_induct)
  case Nil
  then show ?case by (simp add: digits_value_def)
next
  case (snoc d ys)
  have "digits_value (xs @ ys @ [d]) = 10 * digits_value (xs @ ys) + d"
    using digits_value_snoc [of "xs @ ys" d] by simp
  then show ?case
    by (simp add: snoc digits_value_snoc algebra_simps)
qed

lemma digits_value_zeros: "digits_value (replicate z 0) = 0"
  by (induction z) (simp_all add: digits_value_def)

lemma digits_value_leading_zeros: "digits_value (replicate z 0 @ ds) = digits_value ds"
  by (simp add: digits_value_append digits_value_zeros)

lemma digits_value_trailing_zeros: "digits_value (ds @ replicate z 0) = digits_value ds * 10 ^ z"
  by (simp add: digits_value_append digits_value_zeros)

lemma digit_char_props:
  assumes "d < 10"
  shows "is_digit (char_of (48 + d))" "digit_value (char_of (48 + d)) = d"
  using assms by (simp_all add: is_digit_def digit_value_def)

lemma map_digit_value_chars: "\<forall>d\<in>set ds. d < 10 \<Longrightarrow> map digit_value (digit_chars ds) = ds"
  by (induction ds) (simp_all add: digit_chars_def digit_char_props)

lemma digit_chars_all_digits: "\<forall>d\<in>set ds. d < 10 \<Longrightarrow> \<forall>c\<in>set (digit_chars ds). is_digit c"
  by (induction ds) (simp_all add: digit_chars_def digit_char_props)

lemma takeWhile_digit_chars:
  assumes "\<forall>d\<in>set ds. d < 10" and "stops rest"
  shows "takeWhile is_digit (digit_chars ds @ rest) = digit_chars ds"
    and "dropWhile is_digit (digit_chars ds @ rest) = rest"
proof -
  have a: "\<forall>c\<in>set (digit_chars ds). is_digit c"
    using assms(1) by (rule digit_chars_all_digits)
  have b: "takeWhile is_digit rest = []" "dropWhile is_digit rest = rest"
    using assms(2) by (cases rest; simp add: stops_def)+
  show "takeWhile is_digit (digit_chars ds @ rest) = digit_chars ds"
    using a b by (simp add: takeWhile_append2)
  show "dropWhile is_digit (digit_chars ds @ rest) = rest"
    using a b by (simp add: dropWhile_append2)
qed

lemma terminated_stops: "terminated rest \<Longrightarrow> stops rest"
  by (cases rest) (auto simp add: terminated_def stops_def is_digit_def)

lemma digit_chars_append: "digit_chars (xs @ ys) = digit_chars xs @ digit_chars ys"
  by (simp add: digit_chars_def)

lemma length_digit_chars [simp]: "length (digit_chars ds) = length ds"
  by (simp add: digit_chars_def)

lemma digit_chars_Nil [simp]: "digit_chars ds = [] \<longleftrightarrow> ds = []"
  by (simp add: digit_chars_def)

lemma hd_digit_chars:
  assumes "ds \<noteq> []" and "\<forall>d\<in>set ds. d < 10"
  shows "hd (digit_chars ds) = CHR ''0'' \<longleftrightarrow> hd ds = 0"
proof -
  obtain d ds' where ds: "ds = d # ds'" using assms(1) by (cases ds) auto
  then have "d < 10" using assms(2) by simp
  then have v: "(of_char (char_of (48 + d)) :: nat) = 48 + d"
    by simp
  have "(of_char (char_of (48 :: nat)) :: nat) = of_char CHR ''0''"
    by simp
  then have z: "char_of (48 :: nat) = CHR ''0''"
    by (simp only: of_char_eq_iff)
  have "d = 0" if "char_of (48 + d) = CHR ''0''"
  proof -
    from that have "(of_char (char_of (48 + d)) :: nat) = of_char CHR ''0''" by (rule arg_cong)
    with v show ?thesis by simp
  qed
  moreover have "char_of (48 + d) = CHR ''0''" if "d = 0"
    using that z by (simp del: char_of_nat)
  ultimately have "char_of (48 + d) = CHR ''0'' \<longleftrightarrow> d = 0"
    by blast
  then show ?thesis by (simp add: ds digit_chars_def)
qed

lemma digit_chars_first:
  assumes "ds \<noteq> []" and "\<forall>d\<in>set ds. d < 10"
  obtains c cs where "digit_chars ds = c # cs" and "is_digit c"
proof -
  obtain d ds' where ds: "ds = d # ds'" using assms(1) by (cases ds) auto
  then have "d < 10" using assms(2) by simp
  then have "is_digit (char_of (48 + d))" by (rule digit_char_props)
  then show ?thesis using that by (simp add: ds digit_chars_def)
qed

lemma is_digit_not_special:
  assumes "is_digit c"
  shows "c \<noteq> CHR ''-''" "c \<noteq> CHR ''.''" "c \<noteq> CHR ''e''" "c \<noteq> CHR ''E''" "c \<noteq> CHR ''+''"
    "c \<noteq> CHR ''{''" "c \<noteq> CHR ''[''" "c \<noteq> CHR 0x22" "c \<noteq> CHR ''t''" "c \<noteq> CHR ''f''"
    "c \<noteq> CHR ''n''" "\<not> is_ws c"
  using assms by (auto simp add: is_digit_def is_ws_def)

lemma parse_fraction_text:
  assumes "\<forall>d\<in>set F. d < 10" and "stops rest" and "rest = [] \<or> hd rest \<noteq> CHR ''.''"
  shows "parse_fraction (fraction_text F @ rest) = Some (digit_chars F, rest)"
proof (cases "F = []")
  case True
  then show ?thesis
    using assms(3) by (cases rest) (simp_all add: parse_fraction_def fraction_text_def digit_chars_def)
next
  case False
  then show ?thesis
    using takeWhile_digit_chars [OF assms(1,2)]
    by (simp add: parse_fraction_def fraction_text_def)
qed

lemma parse_exponent_text:
  assumes "terminated rest"
  shows "parse_exponent (exponent_text e @ rest) = Some ((case e of None \<Rightarrow> 0 | Some ex \<Rightarrow> ex), rest)"
proof (cases e)
  case None
  then show ?thesis
    using assms by (cases rest) (auto simp add: parse_exponent_def exponent_text_def terminated_def)
next
  case (Some ex)
  let ?E = "digits (nat \<bar>ex\<bar>)"
  have E: "\<forall>d\<in>set ?E. d < 10" using digits_lt10 by blast
  note tw = takeWhile_digit_chars [OF E terminated_stops [OF assms]]
  have v: "int (digits_value (map digit_value (digit_chars ?E))) = \<bar>ex\<bar>"
    by (simp add: map_digit_value_chars [OF E] digits_value_digits)
  show ?thesis
    using Some tw v
    by (auto simp add: parse_exponent_def exponent_text_def digits_nonempty)
qed

lemma exponent_text_first: "exponent_text e @ rest = [] \<or> \<not> is_digit (hd (exponent_text e @ rest)) \<or> e = None"
  by (cases e) (simp_all add: exponent_text_def is_digit_def)

lemma parse_number_text:
  assumes I: "I \<noteq> []" "\<forall>d\<in>set I. d < 10" "length I = 1 \<or> hd I \<noteq> 0"
      and F: "\<forall>d\<in>set F. d < 10"
      and rest: "terminated rest"
  shows "parse_number ((if neg then ''-'' else []) @ digit_chars I @ fraction_text F @ exponent_text e @ rest)
           = Some (number_value neg (digit_chars I) (digit_chars F)
                     (case e of None \<Rightarrow> 0 | Some ex \<Rightarrow> ex), rest)"
proof -
  let ?tail = "fraction_text F @ exponent_text e @ rest"
  let ?etail = "exponent_text e @ rest"
  obtain c cs where c: "digit_chars I = c # cs" "is_digit c"
    using digit_chars_first [OF I(1,2)] by blast
  have st_e: "stops ?etail"
    using terminated_stops [OF rest]
    by (cases e) (simp_all add: exponent_text_def stops_def is_digit_def)
  have nd_e: "?etail = [] \<or> hd ?etail \<noteq> CHR ''.''"
    using rest by (cases e; cases rest) (auto simp add: exponent_text_def terminated_def)
  have st_t: "stops ?tail"
    using st_e by (cases "F = []") (simp_all add: fraction_text_def stops_def is_digit_def)
  note twI = takeWhile_digit_chars [OF I(2) st_t]
  have lead: "\<not> (1 < length (digit_chars I) \<and> hd (digit_chars I) = CHR ''0'')"
    using I(3) hd_digit_chars [OF I(1,2)] by auto
  have sign: "(case (if neg then ''-'' else []) @ digit_chars I @ ?tail of
                 [] \<Rightarrow> (False, (if neg then ''-'' else []) @ digit_chars I @ ?tail)
               | c # r \<Rightarrow> if c = CHR ''-'' then (True, r)
                          else (False, (if neg then ''-'' else []) @ digit_chars I @ ?tail))
              = (neg, digit_chars I @ ?tail)"
    using c is_digit_not_special(1) [OF c(2)] by (cases neg) simp_all
  show ?thesis
    unfolding parse_number_def sign
    using twI lead I(1) parse_fraction_text [OF F st_e nd_e] parse_exponent_text [OF rest, of e]
    by (simp add: Let_def)
qed

lemma pow10_nat: "pow10 (int p) = 10 ^ p"
  by (simp add: pow10_def)

lemma pow10_pos: "0 < pow10 e"
  by (simp add: pow10_def)

lemma pow10_diff: "pow10 (int p - int q) = 10 ^ p / 10 ^ q"
proof (cases "q \<le> p")
  case True
  then have "pow10 (int p - int q) = 10 ^ (p - q)"
    by (simp add: pow10_def nat_diff_distrib')
  then show ?thesis using True by (simp add: power_diff)
next
  case False
  then have "pow10 (int p - int q) = 1 / 10 ^ (q - p)"
    by (simp add: pow10_def nat_diff_distrib')
  moreover have "(10::real) ^ q = 10 ^ (q - p) * 10 ^ p"
    using False by (simp add: power_add [symmetric])
  ultimately show ?thesis by simp
qed

lemma all_zero_replicate: "\<forall>z\<in>set xs. z = (0::nat) \<Longrightarrow> xs = replicate (length xs) 0"
  by (induction xs) simp_all

lemma strip_trailing_zeros:
  fixes ds0 :: "nat list"
  defines "t \<equiv> length (takeWhile (\<lambda>d. d = 0) (rev ds0))"
  defines "ds \<equiv> take (length ds0 - t) ds0"
  shows "ds0 = ds @ replicate t 0"
proof -
  let ?P = "\<lambda>d::nat. d = 0"
  have tw: "takeWhile ?P (rev ds0) = replicate t 0"
    unfolding t_def by (rule all_zero_replicate) (auto dest: set_takeWhileD)
  have "rev ds0 = replicate t 0 @ dropWhile ?P (rev ds0)"
    using takeWhile_dropWhile_id [of ?P "rev ds0"] tw by simp
  then have "rev (rev ds0) = rev (replicate t 0 @ dropWhile ?P (rev ds0))"
    by simp
  then have eq: "ds0 = rev (dropWhile ?P (rev ds0)) @ replicate t 0"
    by simp
  then have "length ds0 = length (rev (dropWhile ?P (rev ds0))) + t"
    by (metis length_append length_replicate)
  then have "take (length ds0 - t) ds0 = rev (dropWhile ?P (rev ds0))"
    using eq by (metis add_diff_cancel_right' append_eq_conv_conj)
  with eq show ?thesis by (simp add: ds_def)
qed

lemma digit_chars_zero: "digit_chars [0] = ''0''"
proof -
  have "(of_char (char_of (48 :: nat)) :: nat) = of_char CHR ''0''" by simp
  then have "char_of (48 :: nat) = CHR ''0''" by (simp only: of_char_eq_iff)
  then show ?thesis by (simp add: digit_chars_def del: char_of_nat)
qed

lemma positive_text_shape:
  assumes pos: "0 < a" and dec: "decimal a"
  obtains I F e where
    "positive_text a = digit_chars I @ fraction_text F @ exponent_text e"
    "I \<noteq> []" "\<forall>d\<in>set I. d < 10" "length I = 1 \<or> hd I \<noteq> 0" "\<forall>d\<in>set F. d < 10"
    "of_nat (digits_value (I @ F)) * pow10 ((case e of None \<Rightarrow> 0 | Some ex \<Rightarrow> ex) - int (length F)) = a"
proof -
  define j where "j = scale 1074 a"
  define m0 where "m0 = nat \<lfloor>a * 10 ^ j\<rfloor>"
  define ds0 where "ds0 = digits m0"
  define t where "t = length (takeWhile (\<lambda>d. d = 0) (rev ds0))"
  define ds where "ds = take (length ds0 - t) ds0"
  define k where "k = length ds"
  define n where "n = int k + int t - int j"
  have M: "a * 10 ^ j = of_int \<lfloor>a * 10 ^ j\<rfloor>"
    using dec by (simp add: decimal_def j_def)
  have Mpos: "0 < a * 10 ^ j" using pos by simp
  then have "0 < \<lfloor>a * 10 ^ j\<rfloor>" using M by (metis of_int_0_less_iff)
  then have m0: "real m0 = a * 10 ^ j" "0 < m0"
    using M by (simp_all add: m0_def)
  have ds0: "ds0 = ds @ replicate t 0"
    unfolding ds_def t_def by (rule strip_trailing_zeros)
  have lt10: "\<forall>d\<in>set ds0. d < 10"
    unfolding ds0_def using digits_lt10 by blast
  then have ds_lt: "\<forall>d\<in>set ds. d < 10" using ds0 by (metis Un_iff set_append)
  have hd0: "hd ds0 \<noteq> 0" "ds0 \<noteq> []"
    unfolding ds0_def using hd_digits [OF m0(2)] digits_nonempty by auto
  have ds_ne: "ds \<noteq> []"
  proof
    assume "ds = []"
    with ds0 have "ds0 = replicate t 0" by simp
    with hd0 show False by (cases t) simp_all
  qed
  then have hd_ds: "hd ds \<noteq> 0" using hd0 ds0 by (metis hd_append2)
  have kpos: "0 < k" using ds_ne by (simp add: k_def)
  have "real (digits_value ds0) = real m0"
    by (simp add: ds0_def digits_value_digits)
  then have "real (digits_value ds) * 10 ^ t = a * 10 ^ j"
    using m0(1) ds0 digits_value_trailing_zeros [of ds t] by (metis of_nat_mult of_nat_numeral of_nat_power)
  then have val: "real (digits_value ds) * pow10 (int t - int j) = a"
    by (simp add: pow10_diff field_simps)
  have nk: "n - int k = int t - int j" by (simp add: n_def)
  have ptx: "positive_text a =
     (if int k \<le> n \<and> n \<le> 21 then
           digit_chars (ds @ replicate (nat (n - int k)) 0)
         else if 0 < n \<and> n \<le> 21 then
           digit_chars (take (nat n) ds) @ ''.'' @ digit_chars (drop (nat n) ds)
         else if - 6 < n \<and> n \<le> 0 then
           ''0.'' @ digit_chars (replicate (nat (- n)) 0 @ ds)
         else
           (if k = 1 then digit_chars ds
            else digit_chars (take 1 ds) @ ''.'' @ digit_chars (drop 1 ds))
           @ ''e'' @ (if 0 \<le> n - 1 then ''+'' else ''-'') @ digit_chars (digits (nat \<bar>n - 1\<bar>)))"
    unfolding positive_text_def Let_def j_def [symmetric] m0_def [symmetric] ds0_def [symmetric]
      t_def [symmetric] ds_def [symmetric] k_def [symmetric] n_def [symmetric] ..
  consider (A) "int k \<le> n" "n \<le> 21"
    | (B) "\<not> int k \<le> n" "0 < n" "n \<le> 21"
    | (C) "\<not> 0 < n" "- 6 < n"
    | (D) "\<not> (int k \<le> n \<and> n \<le> 21)" "\<not> (0 < n \<and> n \<le> 21)" "\<not> (- 6 < n \<and> n \<le> 0)"
    by linarith
  then show ?thesis
  proof cases
    case A
    let ?I = "ds @ replicate (nat (n - int k)) 0"
    have 1: "positive_text a = digit_chars ?I @ fraction_text [] @ exponent_text None"
      using A by (simp add: ptx fraction_text_def exponent_text_def)
    have 2: "?I \<noteq> []" "\<forall>d\<in>set ?I. d < 10" "length ?I = 1 \<or> hd ?I \<noteq> 0"
      using ds_ne ds_lt hd_ds by auto
    have "int t - int j = int (nat (n - int k))" using A nk by simp
    then have "pow10 (int t - int j) = 10 ^ nat (n - int k)"
      by (simp only: pow10_nat)
    then have 3: "of_nat (digits_value (?I @ [])) * pow10 ((case None of None \<Rightarrow> 0 | Some ex \<Rightarrow> ex) - int (length ([]::nat list))) = a"
      using val by (simp add: digits_value_trailing_zeros pow10_def)
    show ?thesis
      by (rule that [OF 1 2 _ 3]) simp
  next
    case B
    let ?I = "take (nat n) ds" and ?F = "drop (nat n) ds"
    have lt: "nat n < k" using B by simp
    then have Fne: "?F \<noteq> []" by (simp add: k_def)
    have 1: "positive_text a = digit_chars ?I @ fraction_text ?F @ exponent_text None"
      using B Fne by (simp add: ptx fraction_text_def exponent_text_def)
    have Ine: "?I \<noteq> []" using B ds_ne by simp
    have hdI: "hd ?I = hd ds" using B by (simp add: hd_take)
    have 2: "\<forall>d\<in>set ?I. d < 10" "length ?I = 1 \<or> hd ?I \<noteq> 0" "\<forall>d\<in>set ?F. d < 10"
      using ds_lt hd_ds hdI by (auto dest: in_set_takeD in_set_dropD)
    have "int (length ?F) = int k - n" using B by (simp add: k_def)
    then have 3: "of_nat (digits_value (?I @ ?F)) * pow10 ((case None of None \<Rightarrow> 0 | Some ex \<Rightarrow> ex) - int (length ?F)) = a"
      using val nk by simp
    show ?thesis
      by (rule that [OF 1 Ine 2 3])
  next
    case C
    let ?I = "[0::nat]" and ?F = "replicate (nat (- n)) 0 @ ds"
    have Fne: "?F \<noteq> []" using ds_ne by simp
    have 1: "positive_text a = digit_chars ?I @ fraction_text ?F @ exponent_text None"
      using C kpos Fne by (simp add: ptx fraction_text_def exponent_text_def digit_chars_zero)
    have 2: "\<forall>d\<in>set ?F. d < 10" using ds_lt by auto
    have "int (length ?F) = int k - n" using C by (simp add: k_def)
    moreover have "digits_value (?I @ ?F) = digits_value ds"
      using digits_value_leading_zeros [of "Suc (nat (- n))" ds] by simp
    ultimately have 3: "of_nat (digits_value (?I @ ?F)) * pow10 ((case None of None \<Rightarrow> 0 | Some ex \<Rightarrow> ex) - int (length ?F)) = a"
      using val nk by simp
    show ?thesis
      by (rule that [OF 1 _ _ _ 2 3]) simp_all
  next
    case D
    let ?I = "take 1 ds" and ?F = "drop 1 ds" and ?e = "Some (n - 1)"
    have F1: "k = 1 \<Longrightarrow> ?F = []" by (simp add: k_def)
    have F2: "k \<noteq> 1 \<Longrightarrow> ?F \<noteq> []" using kpos by (cases ds) (auto simp add: k_def)
    have I1: "k = 1 \<Longrightarrow> ?I = ds" by (simp add: k_def)
    have br: "positive_text a =
           (if k = 1 then digit_chars ds
            else digit_chars (take 1 ds) @ ''.'' @ digit_chars (drop 1 ds))
           @ ''e'' @ (if 0 \<le> n - 1 then ''+'' else ''-'') @ digit_chars (digits (nat \<bar>n - 1\<bar>))"
      by (simp only: ptx D if_False)
    have 1: "positive_text a = digit_chars ?I @ fraction_text ?F @ exponent_text ?e"
    proof (cases "k = 1")
      case True
      then show ?thesis
        using F1 I1 by (simp add: br fraction_text_def exponent_text_def)
    next
      case False
      then show ?thesis
        using F2 by (simp add: br fraction_text_def exponent_text_def)
    qed
    have Ine: "?I \<noteq> []" using ds_ne by simp
    have "length ?I = 1" using ds_ne by (cases ds) simp_all
    then have 2: "\<forall>d\<in>set ?I. d < 10" "length ?I = 1 \<or> hd ?I \<noteq> 0" "\<forall>d\<in>set ?F. d < 10"
      using ds_lt by (auto dest: in_set_takeD in_set_dropD)
    have "int (length ?F) = int k - 1" using ds_ne by (cases ds) (simp_all add: k_def)
    then have 3: "of_nat (digits_value (?I @ ?F)) * pow10 ((case ?e of None \<Rightarrow> 0 | Some ex \<Rightarrow> ex) - int (length ?F)) = a"
      using val nk by simp
    show ?thesis
      by (rule that [OF 1 Ine 2 3])
  qed
qed

lemma number_value_finite:
  assumes "of_nat (digits_value (I @ F)) * pow10 (e - int (length F)) = a"
      and "\<forall>d\<in>set I. d < 10" "\<forall>d\<in>set F. d < 10" "a < overflow_bound"
  shows "number_value neg (digit_chars I) (digit_chars F) e = Finite (if neg then - a else a)"
proof -
  have "map digit_value (digit_chars I @ digit_chars F) = I @ F"
    using map_digit_value_chars [of "I @ F"] assms(2,3) by (auto simp add: digit_chars_append)
  then show ?thesis
    using assms(1,4) by (simp add: number_value_def Let_def)
qed

lemma parse_number_text_of:
  assumes "representable r" and "terminated rest"
  shows "parse_number (number_text r @ rest) = Some (Finite r, rest)"
proof (cases "r = 0")
  case True
  have "parse_number ((if False then ''-'' else []) @ digit_chars [0] @ fraction_text [] @ exponent_text None @ rest)
          = Some (number_value False (digit_chars [0]) (digit_chars []) 0, rest)"
    using parse_number_text [of "[0]" "[]" rest False None] assms(2) by simp
  moreover have "number_value False (digit_chars [0]) (digit_chars []) 0 = Finite 0"
    using number_value_finite [of "[0]" "[]" 0 0 False]
    by (simp add: digits_value_def pow10_def overflow_bound_def)
  ultimately show ?thesis
    using True by (simp add: number_text_def digit_chars_zero fraction_text_def exponent_text_def)
next
  case False
  define a where "a = \<bar>r\<bar>"
  define neg where "neg = (r < 0)"
  have a: "0 < a" "decimal a" "a < overflow_bound"
    using False assms(1) by (simp_all add: a_def representable_def)
  obtain I F e where s:
    "positive_text a = digit_chars I @ fraction_text F @ exponent_text e"
    "I \<noteq> []" "\<forall>d\<in>set I. d < 10" "length I = 1 \<or> hd I \<noteq> 0" "\<forall>d\<in>set F. d < 10"
    "of_nat (digits_value (I @ F)) * pow10 ((case e of None \<Rightarrow> 0 | Some ex \<Rightarrow> ex) - int (length F)) = a"
    using positive_text_shape [OF a(1,2)] by blast
  have ptx: "number_text r = (if neg then ''-'' else []) @ positive_text a"
    using False by (auto simp add: number_text_def neg_def a_def)
  have val: "(if neg then - a else a) = r"
    by (auto simp add: neg_def a_def)
  show ?thesis
    using parse_number_text [OF s(2,3,4,5) assms(2), of neg e]
      number_value_finite [OF s(6) s(3) s(5) a(3), of neg]
    by (simp add: ptx s(1) val)
qed

lemma number_text_first:
  assumes "representable r"
  obtains c cs where "number_text r = c # cs" and "c = CHR ''-'' \<or> is_digit c"
proof (cases "r = 0")
  case True
  then show ?thesis using that by (simp add: number_text_def is_digit_def)
next
  case False
  define a where "a = \<bar>r\<bar>"
  have a: "0 < a" "decimal a"
    using False assms(1) by (simp_all add: a_def representable_def)
  obtain I F e where s:
    "positive_text a = digit_chars I @ fraction_text F @ exponent_text e"
    "I \<noteq> []" "\<forall>d\<in>set I. d < 10"
    using positive_text_shape [OF a(1,2)] by blast
  obtain c cs where c: "digit_chars I = c # cs" "is_digit c"
    using digit_chars_first [OF s(2,3)] by blast
  show ?thesis
  proof (cases "r < 0")
    case True
    then show ?thesis using that by (simp add: number_text_def)
  next
    case False
    with \<open>r \<noteq> 0\<close> have "number_text r = positive_text a"
      by (simp add: number_text_def a_def)
    then show ?thesis using that c s(1) by simp
  qed
qed

lemma hex_value_hex_digit: "d < 16 \<Longrightarrow> hex_value (hex_digit d) = Some d"
  by (simp add: hex_value_def hex_digit_def Let_def)

lemma parse_chars_unit:
  assumes "u < 256"
  shows "parse_chars (quote_unit u @ cs) =
           (case parse_chars cs of None \<Rightarrow> None | Some (s, r) \<Rightarrow> Some (u # s, r))"
proof -
  consider (named) "u = 8 \<or> u = 9 \<or> u = 10 \<or> u = 12 \<or> u = 13 \<or> u = 34 \<or> u = 92"
    | (low) "u < 32" "\<not> (u = 8 \<or> u = 9 \<or> u = 10 \<or> u = 12 \<or> u = 13 \<or> u = 34 \<or> u = 92)"
    | (raw) "32 \<le> u" "u \<noteq> 34" "u \<noteq> 92"
    by linarith
  then show ?thesis
  proof cases
    case named
    then show ?thesis
      by (auto simp add: quote_unit_def unescape_def split: option.splits)
  next
    case low
    have h: "hex_value (hex_digit (u div 4096 mod 16)) = Some 0"
            "hex_value (hex_digit (u div 256 mod 16)) = Some 0"
            "hex_value (hex_digit (u div 16 mod 16)) = Some (u div 16)"
            "hex_value (hex_digit (u mod 16)) = Some (u mod 16)"
      using low(1) hex_value_hex_digit [of 0] hex_value_hex_digit [of "u div 16"]
        hex_value_hex_digit [of "u mod 16"]
      by simp_all
    have q: "quote_unit u = unicode_escape u"
      using low by (simp add: quote_unit_def)
    show ?thesis
      by (simp add: q unicode_escape_def h split: option.splits)
  next
    case raw
    let ?c = "char_of u"
    have oc: "(of_char ?c :: nat) = u" using assms by simp
    have "(of_char ?c :: nat) \<noteq> of_char CHR 0x22" "(of_char ?c :: nat) \<noteq> of_char CHR 0x5C"
      using raw by (simp_all only: oc) simp_all
    then have ne: "?c \<noteq> CHR 0x22" "?c \<noteq> CHR 0x5C"
      by (simp_all only: of_char_eq_iff not_False_eq_True)
    have q: "quote_unit u = [?c]"
      using raw assms by (simp add: quote_unit_def)
    show ?thesis
      using ne oc raw(1) by (simp add: q split: option.splits)
  qed
qed

lemma parse_chars_quoted:
  "\<forall>u\<in>set s. u < 256 \<Longrightarrow>
     parse_chars (concat (map quote_unit s) @ CHR 0x22 # rest) = Some (s, rest)"
  by (induction s) (simp_all add: parse_chars_unit)

lemma parse_chars_quote_string:
  "\<forall>u\<in>set s. u < 256 \<Longrightarrow>
     quote_string s @ rest = CHR 0x22 # concat (map quote_unit s) @ CHR 0x22 # rest"
  by (simp add: quote_string_def)

lemma serialize_None: "serialize v = None \<longleftrightarrow> v = JUndefined"
  by (cases v) simp_all

lemma skip_ws_not_ws: "\<not> is_ws c \<Longrightarrow> skip_ws (c # cs) = c # cs"
  by (simp add: skip_ws_def)

lemma parse_value_null: "parse_value (Suc n) (''null'' @ rest) = Some (JNull, rest)"
  by (simp add: skip_ws_def is_ws_def parse_literal_def)

lemma parse_value_true: "parse_value (Suc n) (''true'' @ rest) = Some (JBool True, rest)"
  by (simp add: skip_ws_def is_ws_def parse_literal_def)

lemma parse_value_false: "parse_value (Suc n) (''false'' @ rest) = Some (JBool False, rest)"
  by (simp add: skip_ws_def is_ws_def parse_literal_def)

lemma parse_value_string:
  assumes "\<forall>u\<in>set s. u < 256"
  shows "parse_value (Suc n) (quote_string s @ rest) = Some (JStr s, rest)"
  using parse_chars_quoted [OF assms, of rest]
  by (simp add: quote_string_def skip_ws_def is_ws_def)

lemma parse_value_number:
  assumes "representable r" and "terminated rest"
  shows "parse_value (Suc n) (number_text r @ rest) = Some (JNum (Finite r), rest)"
proof -
  obtain c cs where c: "number_text r = c # cs" "c = CHR ''-'' \<or> is_digit c"
    using number_text_first [OF assms(1)] by blast
  have nw: "\<not> is_ws c" "c \<noteq> CHR ''{''" "c \<noteq> CHR ''[''" "c \<noteq> CHR 0x22" "c \<noteq> CHR ''t''"
    "c \<noteq> CHR ''f''" "c \<noteq> CHR ''n''"
  proof -
    from c(2) show "\<not> is_ws c"
    proof
      assume "c = CHR ''-''" then show ?thesis by (simp add: is_ws_def)
    next
      assume "is_digit c" then show ?thesis by (rule is_digit_not_special)
    qed
    from c(2) show "c \<noteq> CHR ''{''" "c \<noteq> CHR ''[''" "c \<noteq> CHR 0x22" "c \<noteq> CHR ''t''"
      "c \<noteq> CHR ''f''" "c \<noteq> CHR ''n''"
      by (auto dest: is_digit_not_special)
  qed
  have "parse_number (c # cs @ rest) = Some (Finite r, rest)"
    using parse_number_text_of [OF assms] c(1) by simp
  then show ?thesis
    using nw c(2) by (simp add: c(1) skip_ws_not_ws)
qed


lemma parse_elements_join:
  assumes "vs \<noteq> []"
      and "\<And>v n rest. v \<in> set vs \<Longrightarrow> length (elem_text v) \<le> n \<Longrightarrow> terminated rest \<Longrightarrow>
             parse_value n (elem_text v @ rest) = Some (elem_image v, rest)"
      and "length (join '','' (map elem_text vs)) < n"
  shows "parse_elements n (join '','' (map elem_text vs) @ CHR '']'' # rest) acc
           = Some (JArr (acc @ map elem_image vs), rest)"
  using assms
proof (induction vs arbitrary: n acc rule: list_nonempty_induct)
  case (single v)
  obtain m where n: "n = Suc m" using single.prems(2) by (cases n) auto
  have t: "terminated (CHR '']'' # rest)" by (simp add: terminated_def)
  have "parse_value m (elem_text v @ CHR '']'' # rest) = Some (elem_image v, CHR '']'' # rest)"
    using single.prems(2) by (intro single.prems(1) t) (simp_all add: n)
  then show ?case
    by (simp add: n skip_ws_def is_ws_def)
next
  case (cons v vs)
  obtain m where n: "n = Suc m" using cons.prems(2) by (cases n) auto
  obtain u us where vs: "vs = u # us" using cons.hyps by (cases vs) auto
  let ?tail = "join '','' (map elem_text vs)"
  have j: "join '','' (map elem_text (v # vs)) = elem_text v @ CHR '','' # ?tail"
    by (simp add: vs)
  have len: "length (elem_text v) \<le> m" "length ?tail < m"
    using cons.prems(2) unfolding j n by simp_all
  have t: "terminated (CHR '','' # ?tail @ CHR '']'' # rest)" by (simp add: terminated_def)
  have pv: "parse_value m (elem_text v @ CHR '','' # ?tail @ CHR '']'' # rest)
              = Some (elem_image v, CHR '','' # ?tail @ CHR '']'' # rest)"
    by (intro cons.prems(1) len t) simp
  have "parse_elements m (?tail @ CHR '']'' # rest) (acc @ [elem_image v])
          = Some (JArr ((acc @ [elem_image v]) @ map elem_image vs), rest)"
    by (rule cons.IH [OF _ len(2)]) (simp add: cons.prems(1))
  then show ?case
    unfolding j n using pv by (simp add: skip_ws_def is_ws_def)
qed

lemma set_member_new: "k \<notin> fst ` set acc \<Longrightarrow> set_member k v acc = acc @ [(k, v)]"
  by (simp add: set_member_def)

lemma parse_members_join:
  assumes "ms \<noteq> []"
      and "\<And>kv n rest. kv \<in> set ms \<Longrightarrow> length (elem_text (snd kv)) \<le> n \<Longrightarrow> terminated rest \<Longrightarrow>
             parse_value n (elem_text (snd kv) @ rest) = Some (json_image (snd kv), rest)"
      and "\<forall>kv\<in>set ms. \<forall>u\<in>set (fst kv). u < 256"
      and "distinct (map fst ms)" and "fst ` set acc \<inter> fst ` set ms = {}"
      and "length (join '','' (map member_text ms)) < n"
  shows "parse_members n (join '','' (map member_text ms) @ CHR ''}'' # rest) acc
           = Some (JObj (acc @ map (\<lambda>kv. (fst kv, json_image (snd kv))) ms), rest)"
  using assms
proof (induction ms arbitrary: n acc rule: list_nonempty_induct)
  case (single kv)
  obtain m where n: "n = Suc m" using single.prems(5) by (cases n) auto
  let ?k = "fst kv" and ?v = "snd kv"
  have k: "\<forall>u\<in>set ?k. u < 256" using single.prems(2) by simp
  have new: "?k \<notin> fst ` set acc" using single.prems(4) by auto
  have len: "length (elem_text ?v) \<le> m"
    using single.prems(5) by (simp add: n member_text_def)
  have t: "terminated (CHR ''}'' # rest)" by (simp add: terminated_def)
  have pv: "parse_value m (elem_text ?v @ CHR ''}'' # rest) = Some (json_image ?v, CHR ''}'' # rest)"
    by (intro single.prems(1) len t) simp
  have pc: "parse_chars (concat (map quote_unit ?k) @ CHR 0x22 # CHR '':'' # elem_text ?v @ CHR ''}'' # rest)
              = Some (?k, CHR '':'' # elem_text ?v @ CHR ''}'' # rest)"
    by (rule parse_chars_quoted [OF k])
  show ?case
    using pc pv
    by (simp add: n member_text_def quote_string_def skip_ws_def is_ws_def set_member_new [OF new])
next
  case (cons kv ms)
  obtain m where n: "n = Suc m" using cons.prems(5) by (cases n) auto
  obtain u us where ms: "ms = u # us" using cons.hyps by (cases ms) auto
  let ?k = "fst kv" and ?v = "snd kv"
  let ?tail = "join '','' (map member_text ms)"
  have j: "join '','' (map member_text (kv # ms)) = member_text kv @ CHR '','' # ?tail"
    by (simp add: ms)
  have k: "\<forall>u\<in>set ?k. u < 256" using cons.prems(2) by simp
  have new: "?k \<notin> fst ` set acc" using cons.prems(4) by auto
  have len: "length (elem_text ?v) \<le> m" "length ?tail < m"
    using cons.prems(5) unfolding j n by (simp_all add: member_text_def)
  have t: "terminated (CHR '','' # ?tail @ CHR ''}'' # rest)" by (simp add: terminated_def)
  have pv: "parse_value m (elem_text ?v @ CHR '','' # ?tail @ CHR ''}'' # rest)
              = Some (json_image ?v, CHR '','' # ?tail @ CHR ''}'' # rest)"
    by (intro cons.prems(1) len t) simp
  have pc: "parse_chars (concat (map quote_unit ?k) @ CHR 0x22 # CHR '':'' # elem_text ?v
               @ CHR '','' # ?tail @ CHR ''}'' # rest)
              = Some (?k, CHR '':'' # elem_text ?v @ CHR '','' # ?tail @ CHR ''}'' # rest)"
    by (rule parse_chars_quoted [OF k])
  have disj: "fst ` set (acc @ [(?k, json_image ?v)]) \<inter> fst ` set ms = {}"
    using cons.prems(3,4) by auto
  have "parse_members m (?tail @ CHR ''}'' # rest) (acc @ [(?k, json_image ?v)])
          = Some (JObj ((acc @ [(?k, json_image ?v)]) @ map (\<lambda>kv. (fst kv, json_image (snd kv))) ms), rest)"
    using cons.prems(1,2,3) by (intro cons.IH disj len(2)) simp_all
  then show ?case
    unfolding j n using pc pv
    by (simp add: member_text_def quote_string_def skip_ws_def is_ws_def set_member_new [OF new])
qed

lemma serialize_JArr:
  "serialize (JArr vs) = Some (CHR ''['' # join '','' (map elem_text vs) @ '']'')"
  by (simp add: elem_text_def [abs_def])

lemma member_texts:
  "concat (map (\<lambda>kv. case serialize (snd kv) of
                        None \<Rightarrow> []
                      | Some t \<Rightarrow> [quote_string (fst kv) @ '':'' @ t]) kvs)
     = map member_text (filter (\<lambda>kv. snd kv \<noteq> JUndefined) kvs)"
proof (induction kvs)
  case Nil
  then show ?case by simp
next
  case (Cons kv kvs)
  show ?case
  proof (cases "serialize (snd kv)")
    case None
    then have "snd kv = JUndefined" by (simp add: serialize_None)
    with None Cons show ?thesis by simp
  next
    case (Some t)
    then have "snd kv \<noteq> JUndefined" using serialize_None by force
    with Some Cons show ?thesis by (simp add: member_text_def elem_text_def)
  qed
qed

lemma serialize_JObj:
  "serialize (JObj kvs) =
     Some (CHR ''{'' # join '','' (map member_text (filter (\<lambda>kv. snd kv \<noteq> JUndefined) kvs)) @ ''}'')"
  using member_texts [of kvs] by simp

lemma elem_text_first:
  assumes "serialisable v"
  obtains c cs where "elem_text v = c # cs" "\<not> is_ws c" "c \<noteq> CHR '']''" "c \<noteq> CHR ''}''"
proof (cases v)
  case (JNum num)
  show ?thesis
  proof (cases num)
    case (Finite r)
    then have "representable r" using assms JNum by simp
    then obtain c cs where c: "number_text r = c # cs" "c = CHR ''-'' \<or> is_digit c"
      using number_text_first by blast
    from c(2) have "\<not> is_ws c \<and> c \<noteq> CHR '']'' \<and> c \<noteq> CHR ''}''"
      by (auto simp add: is_ws_def is_digit_def)
    then show ?thesis using that c(1) JNum Finite by (simp add: elem_text_def)
  qed (use that JNum in \<open>simp_all add: elem_text_def is_ws_def\<close>)
next
  case (JBool b)
  then show ?thesis using that by (cases b) (simp_all add: elem_text_def is_ws_def)
qed (use that in \<open>simp_all add: elem_text_def is_ws_def quote_string_def\<close>)

lemma join_first:
  assumes "ts \<noteq> []" and "hd ts = c # cs"
  obtains cs' where "join sep ts = c # cs'"
proof (cases ts)
  case Nil
  with assms show ?thesis by simp
next
  case (Cons t ts')
  with assms that show ?thesis by (cases ts') simp_all
qed

lemma parse_serialized:
  "serialisable v \<Longrightarrow> serialize v = Some t \<Longrightarrow> length t \<le> n \<Longrightarrow> terminated rest \<Longrightarrow>
     parse_value n (t @ rest) = Some (json_image v, rest)"
proof (induction v arbitrary: t n rest)
  case JUndefined
  then show ?case by simp
next
  case JNull
  then obtain m where "n = Suc m" by (cases n) auto
  with JNull show ?case using parse_value_null [of m rest] by simp
next
  case (JBool b)
  then obtain m where "n = Suc m" by (cases n; cases b) auto
  with JBool show ?case
    using parse_value_true [of m rest] parse_value_false [of m rest] by (cases b) simp_all
next
  case (JNum num)
  show ?case
  proof (cases num)
    case (Finite r)
    then have r: "representable r" "t = number_text r" using JNum by simp_all
    obtain c cs where "number_text r = c # cs" using number_text_first [OF r(1)] by blast
    then obtain m where "n = Suc m" using JNum.prems(3) r(2) by (cases n) auto
    then show ?thesis
      using parse_value_number [OF r(1) JNum.prems(4), of m] Finite r(2) by simp
  next
    case PosInfinity
    with JNum obtain m where "n = Suc m" by (cases n) auto
    with JNum PosInfinity show ?thesis using parse_value_null [of m rest] by simp
  next
    case NegInfinity
    with JNum obtain m where "n = Suc m" by (cases n) auto
    with JNum NegInfinity show ?thesis using parse_value_null [of m rest] by simp
  next
    case NaN
    with JNum obtain m where "n = Suc m" by (cases n) auto
    with JNum NaN show ?thesis using parse_value_null [of m rest] by simp
  qed
next
  case (JStr s)
  then obtain m where "n = Suc m" by (cases n) (auto simp add: quote_string_def)
  with JStr show ?case using parse_value_string [of s m rest] by simp
next
  case (JArr vs)
  have t: "t = CHR ''['' # join '','' (map elem_text vs) @ '']''"
    using JArr.prems(2) by (simp only: serialize_JArr option.inject)
  then obtain m where n: "n = Suc m" using JArr.prems(3) by (cases n) auto
  show ?case
  proof (cases "vs = []")
    case True
    then show ?thesis by (simp add: t n skip_ws_def is_ws_def)
  next
    case False
    have elems: "parse_value n' (elem_text v @ rest') = Some (elem_image v, rest')"
      if "v \<in> set vs" "length (elem_text v) \<le> n'" "terminated rest'" for v n' rest'
    proof (cases "v = JUndefined")
      case True
      with that(2) obtain m' where "n' = Suc m'" by (cases n') (auto simp add: elem_text_def)
      then show ?thesis
        using True parse_value_null [of m' rest'] by (simp add: elem_text_def elem_image_def)
    next
      case False
      then obtain t' where t': "serialize v = Some t'" using serialize_None by (cases "serialize v") auto
      then have "elem_text v = t'" by (simp add: elem_text_def)
      moreover have "serialisable v" using JArr.prems(1) that(1) by simp
      ultimately show ?thesis
        using JArr.IH [OF that(1) _ t' _ that(3), of n'] that(2) False by (simp add: elem_image_def)
    qed
    let ?body = "join '','' (map elem_text vs)"
    have len: "length ?body < m" using JArr.prems(3) by (simp add: t n)
    have pe: "parse_elements m (?body @ CHR '']'' # rest) [] = Some (JArr ([] @ map elem_image vs), rest)"
      by (rule parse_elements_join [OF False elems len])
    obtain v vs' where vs: "vs = v # vs'" using False by (cases vs) auto
    have "serialisable v" using JArr.prems(1) vs by simp
    then obtain c cs where c: "elem_text v = c # cs" "\<not> is_ws c" "c \<noteq> CHR '']''"
      using elem_text_first by blast
    obtain cs' where body: "?body = c # cs'"
      using join_first [of "map elem_text vs" c cs "'',''"] vs c(1) by auto
    have img: "json_image (JArr vs) = JArr (map elem_image vs)"
      by (simp add: elem_image_def)
    show ?thesis
      using pe c(2,3) unfolding img t n
      by (simp add: body skip_ws_def is_ws_def)
  qed
next
  case (JObj kvs)
  let ?ms = "filter (\<lambda>kv. snd kv \<noteq> JUndefined) kvs"
  have t: "t = CHR ''{'' # join '','' (map member_text ?ms) @ ''}''"
    using JObj.prems(2) by (simp only: serialize_JObj option.inject)
  then obtain m where n: "n = Suc m" using JObj.prems(3) by (cases n) auto
  have img: "json_image (JObj kvs) = JObj (map (\<lambda>kv. (fst kv, json_image (snd kv))) ?ms)"
    by simp
  show ?case
  proof (cases "?ms = []")
    case True
    then show ?thesis unfolding img t n by (simp add: skip_ws_def is_ws_def)
  next
    case False
    have mems: "parse_value n' (elem_text (snd kv) @ rest') = Some (json_image (snd kv), rest')"
      if "kv \<in> set ?ms" "length (elem_text (snd kv)) \<le> n'" "terminated rest'" for kv n' rest'
    proof -
      from that(1) have kv: "kv \<in> set kvs" "snd kv \<noteq> JUndefined" by simp_all
      then obtain t' where t': "serialize (snd kv) = Some t'"
        using serialize_None by (cases "serialize (snd kv)") auto
      then have e: "elem_text (snd kv) = t'" by (simp add: elem_text_def)
      have s: "serialisable (snd kv)" using JObj.prems(1) kv(1) by simp
      have "snd kv \<in> Basic_BNFs.snds kv" by (cases kv) simp
      from JObj.IH [OF kv(1) this s t' _ that(3), of n'] that(2) e
      show ?thesis by simp
    qed
    let ?body = "join '','' (map member_text ?ms)"
    have len: "length ?body < m" using JObj.prems(3) by (simp add: t n)
    have keys: "\<forall>kv\<in>set ?ms. \<forall>u\<in>set (fst kv). u < 256"
      using JObj.prems(1) by auto
    have dist: "distinct (map fst ?ms)" using JObj.prems(1) by simp
    have pm: "parse_members m (?body @ CHR ''}'' # rest) []
                = Some (JObj ([] @ map (\<lambda>kv. (fst kv, json_image (snd kv))) ?ms), rest)"
    proof (rule parse_members_join [OF False mems keys dist _ len])
      show "fst ` set ([] :: (js_string \<times> jsval) list) \<inter> fst ` set ?ms = {}" by simp
    qed
    obtain kv ms' where ms: "?ms = kv # ms'" using False by (cases ?ms) auto
    obtain cs' where body: "?body = CHR 0x22 # cs'"
      using join_first [of "map member_text ?ms" "CHR 0x22" _ "'',''"] ms
      by (auto simp add: member_text_def quote_string_def)
    show ?thesis
      using pm unfolding img t n
      by (simp add: body skip_ws_def is_ws_def)
  qed
qed

theorem JSON_parse_stringify:
  assumes "serialisable v" and "v \<noteq> JUndefined"
  shows "JSON_parse (JSON_stringify v) = Some (json_image v)"
proof -
  obtain t where t: "serialize v = Some t"
    using assms(2) serialize_None by (cases "serialize v") auto
  have "parse_value (length t) (t @ []) = Some (json_image v, [])"
    by (rule parse_serialized [OF assms(1) t]) (simp_all add: terminated_def)
  then show ?thesis
    by (simp add: JSON_parse_def JSON_stringify_def t skip_ws_def)
qed

section \<open>Properties of JSON export and import\<close>

lemma units_lt: "u \<in> set (units s) \<Longrightarrow> u < 256"
proof -
  have "(of_char c :: nat) < 256" for c
  proof -
    have "(of_char c :: nat) mod 256 = of_char c" by simp
    then show ?thesis by (metis mod_less_divisor zero_less_numeral)
  qed
  then show "u \<in> set (units s) \<Longrightarrow> u < 256" by (auto simp add: units_def)
qed

lemma chars_of_units: "map char_of (units s) = s"
  by (induction s) (simp_all add: units_def)

lemma units_eq_iff [simp]: "units s = units t \<longleftrightarrow> s = t"
  by (metis chars_of_units)

lemma units_all_lt [simp]: "\<forall>u\<in>set (units s). u < 256"
  by (simp add: units_lt)

lemma units_Nil_iff [simp]: "units s = [] \<longleftrightarrow> s = []"
  by (simp add: units_def)

lemma as_string_units: "as_string (JStr (units s)) = Some s"
  by (simp add: chars_of_units)

lemma shape_of_js_shape_to_js: "shape_of_js (shape_to_js s) = Some s"
  by (cases s) (simp_all add: shape_of_js_def shape_of_props_def field_def chars_of_units)

lemma those_map_shape_of_js: "those (map (shape_of_js \<circ> shape_to_js) ss) = Some ss"
  by (induction ss) (simp_all add: shape_of_js_shape_to_js)

lemma shape_to_js_defined: "shape_to_js s \<noteq> JUndefined"
  by (cases s) simp_all

lemma json_image_shape_to_js: "json_image (shape_to_js s) = shape_to_js s"
  by (cases s) simp_all

lemma serialisable_shape_to_js: "finite_shape s \<Longrightarrow> serialisable (shape_to_js s)"
  by (cases s) (auto dest: units_lt)

lemma serialisable_export_value:
  assumes "\<forall>shape\<in>set (shapes st). finite_shape shape"
      and "case bgImgRotation st of Finite r \<Rightarrow> representable r | _ \<Rightarrow> True"
  shows "serialisable (export_value st)"
  using assms
  by (auto simp add: export_value_def serialisable_shape_to_js dest: units_lt
        split: option.splits jsnum.splits)

lemma json_image_export_value:
  "json_image (export_value st) =
     JObj ((case bgImg st of None \<Rightarrow> [] | Some img \<Rightarrow> [(units ''bgImgSrc'', JStr (units (src img)))]) @
           [(units ''bgImgRotation'', json_image (JNum (bgImgRotation st))),
            (units ''shapes'', JArr (map shape_to_js (shapes st)))])"
  by (simp add: export_value_def shape_to_js_defined json_image_shape_to_js
        split: option.split)

text \<open>What the export puts into the text area is read back as the image of the exported object.\<close>

lemma parse_exported_text:
  assumes "\<forall>shape\<in>set (shapes st). finite_shape shape"
      and "case bgImgRotation st of Finite r \<Rightarrow> representable r | _ \<Rightarrow> True"
  shows "JSON_parse (textArea (handleJSONExport JSON_stringify st))
           = Some (json_image (export_value st))"
proof -
  have "export_value st \<noteq> JUndefined" by (simp add: export_value_def)
  with serialisable_export_value [OF assms] show ?thesis
    by (simp add: handleJSONExport_def JSON_parse_stringify)
qed

text \<open>An alert is raised only on the path that runs no setter and creates no image.\<close>

lemma import_alert_unchanged:
  assumes "handleJSONImport parse st = Typed (st', eff)" and "alert eff \<noteq> None"
  shows "st' = st \<and> image_src eff = None"
  using assms
  by (auto simp add: handleJSONImport_def import_failed_def Let_def
        split: option.splits sum.splits)

text \<open>
  C1, as it holds: export followed by import of a document whose numbers are finite.
  Importing the text that the export of such a state \<open>st\<close> has put into the text area,
  into any state \<open>st'\<close>, raises no alert and sets the shape list and the background
  rotation to those of \<open>st\<close>, equal field for field. The background image is not part
  of this: the import only creates an image from the exported \<open>src\<close> (when there is a
  non-empty one), which sets \<open>bgImg\<close> once loaded.
\<close>

theorem export_import_round_trip_finite:
  assumes "finite_document st"
  shows "handleJSONImport JSON_parse
           (st'\<lparr>textArea := textArea (handleJSONExport JSON_stringify st)\<rparr>) =
           Typed (st'\<lparr>textArea := textArea (handleJSONExport JSON_stringify st),
                      bgImgRotation := bgImgRotation st, shapes := shapes st\<rparr>,
                  \<lparr>alert = None,
                   image_src = (case bgImg st of
                                  None \<Rightarrow> None
                                | Some img \<Rightarrow>
                                    if src img = [] then None else Some (JStr (units (src img))))\<rparr>)"
proof -
  obtain r where r: "bgImgRotation st = Finite r" "representable r"
    using assms by (auto simp add: finite_document_def split: jsnum.splits)
  have sh: "\<forall>shape\<in>set (shapes st). finite_shape shape"
    using assms by (simp add: finite_document_def)
  have "JSON_parse (textArea (handleJSONExport JSON_stringify st))
          = Some (json_image (export_value st))"
    by (rule parse_exported_text [OF sh]) (simp add: r)
  then show ?thesis
    by (simp add: handleJSONImport_def json_image_export_value r units_def [of "[]"]
          shapes_of_js_def those_map_shape_of_js split: option.split)
qed

lemma representable_small:
  "representable 1" "representable 2" "representable 7" "representable 8" "representable 10"
  "representable 16" "representable 20" "representable 30" "representable 40"
  "representable 50" "representable 60" "representable 90" "representable 100"
  by (simp_all add: representable_def decimal_def overflow_bound_def scale.simps)

theorem export_import_round_trip_finite_witness:
  "finite_document sample_state
   \<and> handleJSONImport JSON_parse
       (initial_state\<lparr>textArea := textArea (handleJSONExport JSON_stringify sample_state)\<rparr>)
     = Typed (initial_state\<lparr>textArea := textArea (handleJSONExport JSON_stringify sample_state),
                           bgImgRotation := Finite 90, shapes := sample_shapes\<rparr>,
              \<lparr>alert = None, image_src = Some (JStr (units ''data:image/png;base64,AAAA''))\<rparr>)"
proof -
  have h: "finite_document sample_state"
    by (simp add: finite_document_def sample_state_def sample_shapes_def representable_small)
  have f: "bgImgRotation sample_state = Finite 90" "shapes sample_state = sample_shapes"
          "bgImg sample_state = Some (Image ''data:image/png;base64,AAAA'')"
    by (simp_all add: sample_state_def)
  from export_import_round_trip_finite [OF h, of initial_state]
  show ?thesis
    using h by (simp add: f)
qed

text \<open>
  A state with a background rotation that is not finite is one the program reaches: the
  import of \<open>{"bgImgRotation":1e400,"shapes":[]}\<close> sets the rotation to \<open>Infinity\<close>.
\<close>

lemma import_sets_infinity:
  "handleJSONImport JSON_parse (initial_state\<lparr>textArea := overflow_text\<rparr>)
     = Typed (initial_state\<lparr>textArea := overflow_text, bgImgRotation := PosInfinity, shapes := []\<rparr>,
              \<lparr>alert = None, image_src = None\<rparr>)"
proof -
  have "JSON_parse overflow_text
          = Some (JObj [(units ''bgImgRotation'', JNum PosInfinity), (units ''shapes'', JArr [])])"
    by (simp add: overflow_text_def JSON_parse_def skip_ws_def is_ws_def set_member_def
          parse_number_def parse_fraction_def parse_exponent_def number_value_def is_digit_def
          digit_value_def digits_value_def pow10_def overflow_bound_def units_def Let_def)
  then show ?thesis
    by (simp add: handleJSONImport_def shapes_of_js_def)
qed

text \<open>
  C1, the claim as it is written, fails for such a state: the export writes the rotation
  \<open>Infinity\<close> as \<open>null\<close>, and the import of that text gives \<open>null\<close>, not
  \<open>Infinity\<close>, to \<open>setBgImgRotation\<close> (and the empty array to \<open>setShapes\<close>).
\<close>

theorem export_import_loses_infinity:
  "bgImgRotation infinite_state = PosInfinity
   \<and> handleJSONImport JSON_parse
       (initial_state\<lparr>textArea := textArea (handleJSONExport JSON_stringify infinite_state)\<rparr>)
     = Untyped JNull (JArr [])"
proof -
  have "JSON_parse (textArea (handleJSONExport JSON_stringify infinite_state))
          = Some (json_image (export_value infinite_state))"
    by (rule parse_exported_text) (simp_all add: infinite_state_def initial_state_def)
  moreover have "json_image (export_value infinite_state)
          = JObj [(units ''bgImgRotation'', JNull), (units ''shapes'', JArr [])]"
    by (simp add: json_image_export_value infinite_state_def initial_state_def)
  ultimately show ?thesis
    by (simp add: handleJSONImport_def shapes_of_js_def infinite_state_def)
qed

text \<open>A text that is not JSON: the runtime's \<open>JSON.parse\<close> throws on it.\<close>

lemma malformed_text_not_parsed: "JSON_parse ''{bgImgRotation: 90'' = None"
  by (simp add: JSON_parse_def skip_ws_def is_ws_def)

text \<open>
  C2. Import of a text that \<open>JSON.parse\<close> rejects: the state (shape list, background
  rotation, background image and all the rest) stays as it is, no image is created, and
  the alert is raised.
\<close>

theorem import_of_malformed_text:
  assumes "parse (textArea st) = None"
  shows "handleJSONImport parse st =
           Typed (st, \<lparr>alert = Some ''Falied to import JSON'', image_src = None\<rparr>)"
  using assms by (simp add: handleJSONImport_def import_failed_def)

theorem import_of_malformed_text_witness:
  "(\<lambda>t. if t = ''{}'' then Some (JObj []) else None)
     (textArea (sample_state\<lparr>textArea := ''{bgImgRotation: 90''\<rparr>)) = None
   \<and> handleJSONImport (\<lambda>t. if t = ''{}'' then Some (JObj []) else None)
       (sample_state\<lparr>textArea := ''{bgImgRotation: 90''\<rparr>)
     = Typed (sample_state\<lparr>textArea := ''{bgImgRotation: 90''\<rparr>,
              \<lparr>alert = Some ''Falied to import JSON'', image_src = None\<rparr>)"
proof -
  let ?parse = "\<lambda>t. if t = ''{}'' then Some (JObj []) else None"
  let ?st = "sample_state\<lparr>textArea := ''{bgImgRotation: 90''\<rparr>"
  have h: "?parse (textArea ?st) = None" by simp
  from import_of_malformed_text [where parse = ?parse, OF h]
  show ?thesis using h by simp
qed

end
